theory Spec2Isabelle
  imports Main "HOL-Library.Word"
begin

unbundle bit_operations_syntax

section \<open>Configuration constants\<close>

text \<open>
  The build-time constants of both policy files. Array extents are natural numbers;
  the counter limits are the values that the 8-bit cells are compared with (the C
  constants are \<open>int\<close>s between 0 and 7, so the promoted comparison and the 8-bit
  comparison agree).
\<close>

definition NUM_CORE :: nat where
  "NUM_CORE = 1"

definition LLC_SETS :: nat where
  "LLC_SETS = NUM_CORE * 2048"

definition LLC_WAYS :: nat where
  "LLC_WAYS = 16"

definition RRPV_BITS :: nat where
  "RRPV_BITS = 3"

definition MAX_RRPV :: "8 word" where
  "MAX_RRPV = push_bit RRPV_BITS 1 - 1"

definition SHCT_SIZE :: nat where
  "SHCT_SIZE = 1024"

definition SHCT_MAX :: "8 word" where
  "SHCT_MAX = 7"

definition SHCT_INIT :: "8 word" where
  "SHCT_INIT = 4"

definition THRESHOLD :: "8 word" where
  "THRESHOLD = SHCT_INIT"

definition SIGN_SHIFT :: nat where
  "SIGN_SHIFT = 4"

section \<open>Replacement state\<close>

text \<open>
  The file-level arrays and the two statistics counters. An array is a function from
  its indices; the cells that exist in the program are those with
  \<open>cpu < NUM_CORE\<close>, \<open>s < LLC_SETS\<close>, \<open>w < LLC_WAYS\<close> and, for the table,
  \<open>i < SHCT_SIZE\<close>.
\<close>

record repl_state =
  repl_rrpv :: "nat \<Rightarrow> nat \<Rightarrow> nat \<Rightarrow> 8 word"
  repl_sig :: "nat \<Rightarrow> nat \<Rightarrow> nat \<Rightarrow> 16 word"
  repl_reused :: "nat \<Rightarrow> nat \<Rightarrow> nat \<Rightarrow> 8 word"
  SHCT :: "nat \<Rightarrow> 8 word"
  stat_hits :: "64 word"
  stat_misses :: "64 word"

text \<open>Assignment to one cell \<open>a[c][s][w] = v\<close> of a three-dimensional array.\<close>

definition upd3 :: "(nat \<Rightarrow> nat \<Rightarrow> nat \<Rightarrow> 'a) \<Rightarrow> nat \<Rightarrow> nat \<Rightarrow> nat \<Rightarrow> 'a \<Rightarrow> nat \<Rightarrow> nat \<Rightarrow> nat \<Rightarrow> 'a" where
  "upd3 a c s w v = a(c := (a c)(s := (a c s)(w := v)))"

section \<open>Saturating counters\<close>

definition sat_inc :: "8 word \<Rightarrow> 8 word \<Rightarrow> 8 word" where
  "sat_inc c max_v = (if c < max_v then c + 1 else c)"

definition sat_dec :: "8 word \<Rightarrow> 8 word" where
  "sat_dec c = (if c > 0 then c - 1 else c)"

section \<open>Initialisation\<close>

text \<open>The innermost loop of \<open>InitReplacementState\<close>, over the ways of one set.\<close>

function init_ways :: "repl_state \<Rightarrow> nat \<Rightarrow> nat \<Rightarrow> nat \<Rightarrow> repl_state" where
  "init_ways st c s w =
     (if w < LLC_WAYS
      then init_ways
             (st\<lparr>repl_rrpv := upd3 (repl_rrpv st) c s w MAX_RRPV,
                 repl_sig := upd3 (repl_sig st) c s w 0,
                 repl_reused := upd3 (repl_reused st) c s w 0\<rparr>) c s (w + 1)
      else st)"
  by pat_completeness auto
termination
  by (relation "measure (\<lambda>(st, c, s, w). LLC_WAYS - w)") auto

function init_sets :: "repl_state \<Rightarrow> nat \<Rightarrow> nat \<Rightarrow> repl_state" where
  "init_sets st c s =
     (if s < LLC_SETS then init_sets (init_ways st c s 0) c (s + 1) else st)"
  by pat_completeness auto
termination
  by (relation "measure (\<lambda>(st, c, s). LLC_SETS - s)") auto

function init_cores :: "repl_state \<Rightarrow> nat \<Rightarrow> repl_state" where
  "init_cores st c =
     (if c < NUM_CORE then init_cores (init_sets st c 0) (c + 1) else st)"
  by pat_completeness auto
termination
  by (relation "measure (\<lambda>(st, c). NUM_CORE - c)") auto

function init_shct :: "repl_state \<Rightarrow> nat \<Rightarrow> repl_state" where
  "init_shct st i =
     (if i < SHCT_SIZE
      then init_shct (st\<lparr>SHCT := (SHCT st)(i := SHCT_INIT)\<rparr>) (i + 1)
      else st)"
  by pat_completeness auto
termination
  by (relation "measure (\<lambda>(st, i). SHCT_SIZE - i)") auto

definition InitReplacementState :: "repl_state \<Rightarrow> repl_state" where
  "InitReplacementState st =
     init_shct (init_cores (st\<lparr>stat_hits := 0, stat_misses := 0\<rparr>) 0) 0"

section \<open>Victim selection (new_policy.cc)\<close>

text \<open>
  The scan \<open>for (w = 0; w < LLC_WAYS; w++) if (repl_rrpv[cpu][set][w] == MAX_RRPV) return w;\<close>.
  \<open>Some w\<close> is the early return, \<open>None\<close> is the loop running to its end.
\<close>

function scan_loop :: "repl_state \<Rightarrow> nat \<Rightarrow> nat \<Rightarrow> nat \<Rightarrow> nat option" where
  "scan_loop st cpu s w =
     (if w < LLC_WAYS
      then (if repl_rrpv st cpu s w = MAX_RRPV then Some w
            else scan_loop st cpu s (w + 1))
      else None)"
  by pat_completeness auto
termination
  by (relation "measure (\<lambda>(st, cpu, s, w). LLC_WAYS - w)") auto

text \<open>The aging pass of the first attempt: every line below \<open>MAX_RRPV\<close> is incremented.\<close>

function age1_loop :: "repl_state \<Rightarrow> nat \<Rightarrow> nat \<Rightarrow> nat \<Rightarrow> repl_state" where
  "age1_loop st cpu s w =
     (if w < LLC_WAYS
      then age1_loop
             (if repl_rrpv st cpu s w < MAX_RRPV
              then st\<lparr>repl_rrpv := upd3 (repl_rrpv st) cpu s w (repl_rrpv st cpu s w + 1)\<rparr>
              else st) cpu s (w + 1)
      else st)"
  by pat_completeness auto
termination
  by (relation "measure (\<lambda>(st, cpu, s, w). LLC_WAYS - w)") auto

text \<open>
  The aging pass of the second attempt. The sum \<open>repl_rrpv + 2\<close> is computed in \<open>int\<close>
  before it is compared with \<open>MAX_RRPV\<close>.
\<close>

function age2_loop :: "repl_state \<Rightarrow> nat \<Rightarrow> nat \<Rightarrow> nat \<Rightarrow> repl_state" where
  "age2_loop st cpu s w =
     (if w < LLC_WAYS
      then age2_loop
             (if repl_rrpv st cpu s w < MAX_RRPV
              then st\<lparr>repl_rrpv := upd3 (repl_rrpv st) cpu s w
                        (if unat (repl_rrpv st cpu s w) + 2 > unat MAX_RRPV then MAX_RRPV
                         else repl_rrpv st cpu s w + 2)\<rparr>
              else st) cpu s (w + 1)
      else st)"
  by pat_completeness auto
termination
  by (relation "measure (\<lambda>(st, cpu, s, w). LLC_WAYS - w)") auto

text \<open>
  The loop \<open>for (attempt = 0; attempt < 2; ++attempt)\<close>: a scan, then the aging pass of
  that attempt. \<open>Some w\<close> is the \<open>return w\<close> inside the loop; \<open>None\<close> is leaving the loop
  with \<open>attempt = 2\<close>.
\<close>

function attempt_loop :: "repl_state \<Rightarrow> nat \<Rightarrow> nat \<Rightarrow> nat \<Rightarrow> nat option \<times> repl_state" where
  "attempt_loop st cpu s attempt =
     (if attempt < 2
      then (case scan_loop st cpu s 0 of
              Some w \<Rightarrow> (Some w, st)
            | None \<Rightarrow>
                attempt_loop
                  (if attempt = 0 then age1_loop st cpu s 0 else age2_loop st cpu s 0)
                  cpu s (attempt + 1))
      else (None, st))"
  by pat_completeness auto
termination
  by (relation "measure (\<lambda>(st, cpu, s, attempt). 2 - attempt)") auto

text \<open>
  \<open>GetVictimInSet\<close> of new_policy.cc: the chosen way and the state it leaves. The
  parameters \<open>current_set\<close>, \<open>PC\<close>, \<open>paddr\<close> and \<open>type\<close> are not read by the body.
\<close>

definition GetVictimInSet :: "repl_state \<Rightarrow> nat \<Rightarrow> nat \<Rightarrow> nat \<times> repl_state" where
  "GetVictimInSet st cpu s =
     (case attempt_loop st cpu s 0 of
        (Some w, st') \<Rightarrow> (w, st')
      | (None, st') \<Rightarrow> (0, st'))"

section \<open>State update (new_policy.cc)\<close>

text \<open>
  The learning step at eviction time (the block after \<open>stat_misses++\<close>): the table
  entry of the outgoing line's masked signature is reinforced when the line's reuse
  cell is non-zero and penalised otherwise. The comparison \<open>old_sig < SHCT_SIZE\<close> is
  the guard the source writes around it.
\<close>

definition shct_learn :: "(nat \<Rightarrow> 8 word) \<Rightarrow> 16 word \<Rightarrow> 8 word \<Rightarrow> nat \<Rightarrow> 8 word" where
  "shct_learn shct line_sig line_reused =
     (let old_sig = line_sig AND (of_nat SHCT_SIZE - 1)
      in if unat old_sig < SHCT_SIZE
         then (if line_reused \<noteq> 0
               then shct(unat old_sig := sat_inc (shct (unat old_sig)) SHCT_MAX)
               else shct(unat old_sig := sat_dec (shct (unat old_sig))))
         else shct)"

text \<open>The signature of the incoming block: \<open>(uint32_t)(PC >> SIGN_SHIFT) & (SHCT_SIZE - 1)\<close>,
  stored in a 16-bit cell.\<close>

definition new_signature :: "64 word \<Rightarrow> 16 word" where
  "new_signature PC =
     ucast ((ucast (drop_bit SIGN_SHIFT PC) :: 32 word) AND (of_nat SHCT_SIZE - 1))"

text \<open>The adaptive insertion policy: the four branches on \<open>pred\<close>, in source order.\<close>

definition insertion_rrpv :: "8 word \<Rightarrow> 8 word" where
  "insertion_rrpv pred =
     (if pred \<ge> THRESHOLD + 2 then 0
      else if pred \<ge> THRESHOLD then 1
      else if pred > 0 then (if unat MAX_RRPV \<ge> 2 then MAX_RRPV - 1 else MAX_RRPV)
      else MAX_RRPV)"

text \<open>
  \<open>UpdateReplacementState\<close> of new_policy.cc. \<open>hit\<close> is the 8-bit flag of the
  interface; \<open>paddr\<close>, \<open>victim_addr\<close> and \<open>type\<close> are not read by the body.
\<close>

definition UpdateReplacementState ::
    "repl_state \<Rightarrow> nat \<Rightarrow> nat \<Rightarrow> nat \<Rightarrow> 64 word \<Rightarrow> 8 word \<Rightarrow> repl_state" where
  "UpdateReplacementState st cpu s way PC hit =
     (if hit \<noteq> 0
      then (let st1 = st\<lparr>stat_hits := stat_hits st + 1\<rparr>;
                st2 = st1\<lparr>repl_reused := upd3 (repl_reused st1) cpu s way 1\<rparr>;
                st3 = st2\<lparr>repl_rrpv := upd3 (repl_rrpv st2) cpu s way 0\<rparr>;
                sig = repl_sig st3 cpu s way AND (of_nat SHCT_SIZE - 1)
            in if unat sig < SHCT_SIZE
               then st3\<lparr>SHCT := (SHCT st3)(unat sig := sat_inc (SHCT st3 (unat sig)) SHCT_MAX)\<rparr>
               else st3)
      else (let st1 = st\<lparr>stat_misses := stat_misses st + 1\<rparr>;
                st2 = st1\<lparr>SHCT := shct_learn (SHCT st1) (repl_sig st1 cpu s way)
                                   (repl_reused st1 cpu s way)\<rparr>;
                newsig = new_signature PC;
                st3 = st2\<lparr>repl_sig := upd3 (repl_sig st2) cpu s way newsig\<rparr>;
                st4 = st3\<lparr>repl_reused := upd3 (repl_reused st3) cpu s way 0\<rparr>;
                pred = SHCT st4 (unat newsig)
            in st4\<lparr>repl_rrpv := upd3 (repl_rrpv st4) cpu s way (insertion_rrpv pred)\<rparr>))"

section \<open>The baseline variant (015_ship_rrip)\<close>

text \<open>
  The baseline file declares the same constants and arrays and has the same
  \<open>InitReplacementState\<close>, the same scan and the same +1 aging pass. Its victim search
  is \<open>while (true)\<close>: \<open>None\<close> stands for a search that never returns.
\<close>

partial_function (option) base_GetVictimInSet ::
    "repl_state \<Rightarrow> nat \<Rightarrow> nat \<Rightarrow> (nat \<times> repl_state) option" where
  "base_GetVictimInSet st cpu s =
     (case scan_loop st cpu s 0 of
        Some w \<Rightarrow> Some (w, st)
      | None \<Rightarrow> base_GetVictimInSet (age1_loop st cpu s 0) cpu s)"

text \<open>The baseline's learning step: \<open>SHCT[old_sig]\<close> is indexed by the stored signature
  as it is, with the two clamps written as conditionals.\<close>

definition base_shct_learn :: "(nat \<Rightarrow> 8 word) \<Rightarrow> 16 word \<Rightarrow> 8 word \<Rightarrow> nat \<Rightarrow> 8 word" where
  "base_shct_learn shct old_sig old_r =
     (if old_r \<noteq> 0
      then (if shct (unat old_sig) < SHCT_MAX
            then shct(unat old_sig := shct (unat old_sig) + 1) else shct)
      else (if shct (unat old_sig) > 0
            then shct(unat old_sig := shct (unat old_sig) - 1) else shct))"

definition base_UpdateReplacementState ::
    "repl_state \<Rightarrow> nat \<Rightarrow> nat \<Rightarrow> nat \<Rightarrow> 64 word \<Rightarrow> 8 word \<Rightarrow> repl_state" where
  "base_UpdateReplacementState st cpu s way PC hit =
     (if hit \<noteq> 0
      then (let st1 = st\<lparr>stat_hits := stat_hits st + 1\<rparr>;
                st2 = st1\<lparr>repl_reused := upd3 (repl_reused st1) cpu s way 1\<rparr>
            in st2\<lparr>repl_rrpv := upd3 (repl_rrpv st2) cpu s way 0\<rparr>)
      else (let st1 = st\<lparr>stat_misses := stat_misses st + 1\<rparr>;
                old_sig = repl_sig st1 cpu s way;
                old_r = repl_reused st1 cpu s way;
                st2 = st1\<lparr>SHCT := base_shct_learn (SHCT st1) old_sig old_r\<rparr>;
                newsig = new_signature PC;
                st3 = st2\<lparr>repl_sig := upd3 (repl_sig st2) cpu s way newsig\<rparr>;
                st4 = st3\<lparr>repl_reused := upd3 (repl_reused st3) cpu s way 0\<rparr>
            in st4\<lparr>repl_rrpv := upd3 (repl_rrpv st4) cpu s way
                     (if SHCT st4 (unat newsig) \<ge> THRESHOLD then 0 else MAX_RRPV - 1)\<rparr>))"

section \<open>Reachable states\<close>

text \<open>
  The host calls \<open>InitReplacementState\<close> first and then the two entry points with
  indices inside the arrays. \<open>static_storage\<close> is the zero-initialised storage the
  arrays have before the first call.
\<close>

definition static_storage :: repl_state where
  "static_storage =
     \<lparr>repl_rrpv = (\<lambda>c s w. 0), repl_sig = (\<lambda>c s w. 0), repl_reused = (\<lambda>c s w. 0),
      SHCT = (\<lambda>i. 0), stat_hits = 0, stat_misses = 0\<rparr>"

inductive reachable :: "repl_state \<Rightarrow> bool" where
  r_init: "reachable (InitReplacementState st)"
| r_victim: "reachable st \<Longrightarrow> cpu < NUM_CORE \<Longrightarrow> s < LLC_SETS \<Longrightarrow>
     reachable (snd (GetVictimInSet st cpu s))"
| r_update: "reachable st \<Longrightarrow> cpu < NUM_CORE \<Longrightarrow> s < LLC_SETS \<Longrightarrow> way < LLC_WAYS \<Longrightarrow>
     reachable (UpdateReplacementState st cpu s way PC hit)"

inductive base_reachable :: "repl_state \<Rightarrow> bool" where
  b_init: "base_reachable (InitReplacementState st)"
| b_victim: "base_reachable st \<Longrightarrow> cpu < NUM_CORE \<Longrightarrow> s < LLC_SETS \<Longrightarrow>
     base_GetVictimInSet st cpu s = Some (w, st') \<Longrightarrow> base_reachable st'"
| b_update: "base_reachable st \<Longrightarrow> cpu < NUM_CORE \<Longrightarrow> s < LLC_SETS \<Longrightarrow> way < LLC_WAYS \<Longrightarrow>
     base_reachable (base_UpdateReplacementState st cpu s way PC hit)"

text \<open>The bounds that the cells of the arrays are meant to keep.\<close>

definition state_ok :: "repl_state \<Rightarrow> bool" where
  "state_ok st \<longleftrightarrow>
     (\<forall>c < NUM_CORE. \<forall>s < LLC_SETS. \<forall>w < LLC_WAYS.
        repl_rrpv st c s w \<le> MAX_RRPV \<and> unat (repl_sig st c s w) < SHCT_SIZE
        \<and> repl_reused st c s w \<le> 1)
     \<and> (\<forall>i < SHCT_SIZE. SHCT st i \<le> SHCT_MAX)"

section \<open>An access sequence on one set\<close>

text \<open>
  The host's handling of a miss in set 0 of core 0: it asks for a victim way and then
  reports the miss on that way. \<open>cold_misses n\<close> is the state after initialisation and
  \<open>n\<close> such misses, the \<open>k\<close>-th from program counter \<open>16 * k\<close>, so that the blocks
  carry the distinct signatures 1, 2, ..., \<open>n\<close>. \<open>hit_state\<close> follows sixteen of them
  with a hit on way 0, from the program counter that installed it. \<open>thrash_state\<close>
  follows that with one more miss, from program counter \<open>16 * 17\<close>.
\<close>

definition miss_access :: "repl_state \<Rightarrow> 64 word \<Rightarrow> repl_state" where
  "miss_access st PC =
     (case GetVictimInSet st 0 0 of (w, st1) \<Rightarrow> UpdateReplacementState st1 0 0 w PC 0)"

fun cold_misses :: "nat \<Rightarrow> repl_state" where
  "cold_misses 0 = InitReplacementState static_storage"
| "cold_misses (Suc n) = miss_access (cold_misses n) (16 * of_nat (Suc n))"

definition hit_state :: repl_state where
  "hit_state = UpdateReplacementState (cold_misses 16) 0 0 0 16 1"

definition thrash_state :: repl_state where
  "thrash_state = miss_access hit_state 272"

text \<open>What \<open>n\<close> cold misses leave in set 0 and in the table entries read later.\<close>

definition cold_ok :: "nat \<Rightarrow> repl_state \<Rightarrow> bool" where
  "cold_ok n st \<longleftrightarrow>
     (\<forall>w < LLC_WAYS. repl_rrpv st 0 0 w = (if w < n then 1 else MAX_RRPV))
     \<and> (\<forall>w < LLC_WAYS. repl_sig st 0 0 w = (if w < n then of_nat (Suc w) else 0))
     \<and> (\<forall>w < LLC_WAYS. repl_reused st 0 0 w = 0)
     \<and> (\<forall>i. 1 \<le> i \<and> i \<le> 17 \<longrightarrow> SHCT st i = 4)
     \<and> stat_hits st = 0"

section \<open>Loop lemmas\<close>

declare init_ways.simps [simp del] init_sets.simps [simp del] init_cores.simps [simp del]
  init_shct.simps [simp del] scan_loop.simps [simp del] age1_loop.simps [simp del]
  age2_loop.simps [simp del] attempt_loop.simps [simp del]

lemma upd3_apply [simp]:
  "upd3 a c s w v c' s' w' = (if c' = c \<and> s' = s \<and> w' = w then v else a c' s' w')"
  by (simp add: upd3_def)

lemma MAX_RRPV_val: "MAX_RRPV = 7"
  by (simp add: MAX_RRPV_def RRPV_BITS_def)

lemma age1_loop_rrpv:
  "repl_rrpv (age1_loop st cpu s w0) c s' w =
     (if c = cpu \<and> s' = s \<and> w0 \<le> w \<and> w < LLC_WAYS \<and> repl_rrpv st c s' w < MAX_RRPV
      then repl_rrpv st c s' w + 1 else repl_rrpv st c s' w)"
proof (induction st cpu s w0 rule: age1_loop.induct)
  case (1 st cpu s w0)
  show ?case
  proof (cases "w0 < LLC_WAYS")
    case True
    show ?thesis
      using 1 [OF True] True by (subst age1_loop.simps) auto
  next
    case False
    then show ?thesis by (subst age1_loop.simps) simp
  qed
qed

lemma age1_loop_frame:
  "repl_sig (age1_loop st cpu s w0) = repl_sig st"
  "repl_reused (age1_loop st cpu s w0) = repl_reused st"
  "SHCT (age1_loop st cpu s w0) = SHCT st"
  "stat_hits (age1_loop st cpu s w0) = stat_hits st"
  "stat_misses (age1_loop st cpu s w0) = stat_misses st"
  by (induction st cpu s w0 rule: age1_loop.induct, subst age1_loop.simps, simp)+

lemma age2_loop_rrpv:
  "repl_rrpv (age2_loop st cpu s w0) c s' w =
     (if c = cpu \<and> s' = s \<and> w0 \<le> w \<and> w < LLC_WAYS \<and> repl_rrpv st c s' w < MAX_RRPV
      then (if unat (repl_rrpv st c s' w) + 2 > unat MAX_RRPV then MAX_RRPV
            else repl_rrpv st c s' w + 2)
      else repl_rrpv st c s' w)"
proof (induction st cpu s w0 rule: age2_loop.induct)
  case (1 st cpu s w0)
  show ?case
  proof (cases "w0 < LLC_WAYS")
    case True
    show ?thesis
      using 1 [OF True] True by (subst age2_loop.simps) auto
  next
    case False
    then show ?thesis by (subst age2_loop.simps) auto
  qed
qed

lemma age2_loop_frame:
  "repl_sig (age2_loop st cpu s w0) = repl_sig st"
  "repl_reused (age2_loop st cpu s w0) = repl_reused st"
  "SHCT (age2_loop st cpu s w0) = SHCT st"
  "stat_hits (age2_loop st cpu s w0) = stat_hits st"
  "stat_misses (age2_loop st cpu s w0) = stat_misses st"
  by (induction st cpu s w0 rule: age2_loop.induct, subst age2_loop.simps, simp)+

lemma init_ways_rrpv:
  "repl_rrpv (init_ways st c s w0) c' s' w =
     (if c' = c \<and> s' = s \<and> w0 \<le> w \<and> w < LLC_WAYS then MAX_RRPV else repl_rrpv st c' s' w)"
proof (induction st c s w0 rule: init_ways.induct)
  case (1 st c s w0)
  show ?case
  proof (cases "w0 < LLC_WAYS")
    case True
    show ?thesis using 1 [OF True] True by (subst init_ways.simps) auto
  next
    case False
    then show ?thesis by (subst init_ways.simps) auto
  qed
qed

lemma init_ways_sig:
  "repl_sig (init_ways st c s w0) c' s' w =
     (if c' = c \<and> s' = s \<and> w0 \<le> w \<and> w < LLC_WAYS then 0 else repl_sig st c' s' w)"
proof (induction st c s w0 rule: init_ways.induct)
  case (1 st c s w0)
  show ?case
  proof (cases "w0 < LLC_WAYS")
    case True
    show ?thesis using 1 [OF True] True by (subst init_ways.simps) auto
  next
    case False
    then show ?thesis by (subst init_ways.simps) auto
  qed
qed

lemma init_ways_reused:
  "repl_reused (init_ways st c s w0) c' s' w =
     (if c' = c \<and> s' = s \<and> w0 \<le> w \<and> w < LLC_WAYS then 0 else repl_reused st c' s' w)"
proof (induction st c s w0 rule: init_ways.induct)
  case (1 st c s w0)
  show ?case
  proof (cases "w0 < LLC_WAYS")
    case True
    show ?thesis using 1 [OF True] True by (subst init_ways.simps) auto
  next
    case False
    then show ?thesis by (subst init_ways.simps) auto
  qed
qed

lemma init_ways_frame:
  "SHCT (init_ways st c s w0) = SHCT st"
  "stat_hits (init_ways st c s w0) = stat_hits st"
  "stat_misses (init_ways st c s w0) = stat_misses st"
  by (induction st c s w0 rule: init_ways.induct, subst init_ways.simps, simp)+

lemmas init_ways_cells = init_ways_rrpv init_ways_sig init_ways_reused

lemma init_sets_cells:
  "repl_rrpv (init_sets st c s0) c' s w =
     (if c' = c \<and> s0 \<le> s \<and> s < LLC_SETS \<and> w < LLC_WAYS then MAX_RRPV
      else repl_rrpv st c' s w)
   \<and> repl_sig (init_sets st c s0) c' s w =
     (if c' = c \<and> s0 \<le> s \<and> s < LLC_SETS \<and> w < LLC_WAYS then 0 else repl_sig st c' s w)
   \<and> repl_reused (init_sets st c s0) c' s w =
     (if c' = c \<and> s0 \<le> s \<and> s < LLC_SETS \<and> w < LLC_WAYS then 0
      else repl_reused st c' s w)"
proof (induction st c s0 rule: init_sets.induct)
  case (1 st c s0)
  show ?case
  proof (cases "s0 < LLC_SETS")
    case True
    show ?thesis
      using 1 [OF True] True by (subst (1 2 3) init_sets.simps) (auto simp: init_ways_cells)
  next
    case False
    then show ?thesis by (subst (1 2 3) init_sets.simps) auto
  qed
qed

lemma init_sets_frame:
  "SHCT (init_sets st c s0) = SHCT st"
  "stat_hits (init_sets st c s0) = stat_hits st"
  "stat_misses (init_sets st c s0) = stat_misses st"
  by (induction st c s0 rule: init_sets.induct, subst init_sets.simps,
      simp add: init_ways_frame)+

lemma init_cores_cells:
  "repl_rrpv (init_cores st c0) c s w =
     (if c0 \<le> c \<and> c < NUM_CORE \<and> s < LLC_SETS \<and> w < LLC_WAYS then MAX_RRPV
      else repl_rrpv st c s w)
   \<and> repl_sig (init_cores st c0) c s w =
     (if c0 \<le> c \<and> c < NUM_CORE \<and> s < LLC_SETS \<and> w < LLC_WAYS then 0 else repl_sig st c s w)
   \<and> repl_reused (init_cores st c0) c s w =
     (if c0 \<le> c \<and> c < NUM_CORE \<and> s < LLC_SETS \<and> w < LLC_WAYS then 0
      else repl_reused st c s w)"
proof (induction st c0 rule: init_cores.induct)
  case (1 st c0)
  show ?case
  proof (cases "c0 < NUM_CORE")
    case True
    show ?thesis
      using 1 [OF True] True by (subst (1 2 3) init_cores.simps) (auto simp: init_sets_cells)
  next
    case False
    then show ?thesis by (subst (1 2 3) init_cores.simps) auto
  qed
qed

lemma init_cores_frame:
  "SHCT (init_cores st c0) = SHCT st"
  "stat_hits (init_cores st c0) = stat_hits st"
  "stat_misses (init_cores st c0) = stat_misses st"
  by (induction st c0 rule: init_cores.induct, subst init_cores.simps,
      simp add: init_sets_frame)+

lemma init_shct_table:
  "SHCT (init_shct st i0) i = (if i0 \<le> i \<and> i < SHCT_SIZE then SHCT_INIT else SHCT st i)"
proof (induction st i0 rule: init_shct.induct)
  case (1 st i0)
  show ?case
  proof (cases "i0 < SHCT_SIZE")
    case True
    show ?thesis using 1 [OF True] True by (subst init_shct.simps) auto
  next
    case False
    then show ?thesis by (subst init_shct.simps) auto
  qed
qed

lemma init_shct_frame:
  "repl_rrpv (init_shct st i0) = repl_rrpv st"
  "repl_sig (init_shct st i0) = repl_sig st"
  "repl_reused (init_shct st i0) = repl_reused st"
  "stat_hits (init_shct st i0) = stat_hits st"
  "stat_misses (init_shct st i0) = stat_misses st"
  by (induction st i0 rule: init_shct.induct, subst init_shct.simps, simp)+

lemma Init_rrpv:
  "repl_rrpv (InitReplacementState st) c s w =
     (if c < NUM_CORE \<and> s < LLC_SETS \<and> w < LLC_WAYS then MAX_RRPV else repl_rrpv st c s w)"
  by (simp add: InitReplacementState_def init_shct_frame init_cores_cells)

lemma Init_sig:
  "repl_sig (InitReplacementState st) c s w =
     (if c < NUM_CORE \<and> s < LLC_SETS \<and> w < LLC_WAYS then 0 else repl_sig st c s w)"
  by (simp add: InitReplacementState_def init_shct_frame init_cores_cells)

lemma Init_reused:
  "repl_reused (InitReplacementState st) c s w =
     (if c < NUM_CORE \<and> s < LLC_SETS \<and> w < LLC_WAYS then 0 else repl_reused st c s w)"
  by (simp add: InitReplacementState_def init_shct_frame init_cores_cells)

lemma Init_SHCT:
  "SHCT (InitReplacementState st) i = (if i < SHCT_SIZE then SHCT_INIT else SHCT st i)"
  by (simp add: InitReplacementState_def init_shct_table init_cores_frame)

lemma Init_stats:
  "stat_hits (InitReplacementState st) = 0" "stat_misses (InitReplacementState st) = 0"
  by (simp_all add: InitReplacementState_def init_shct_frame init_cores_frame)

lemma scan_loop_Some:
  "scan_loop st cpu s w0 = Some w \<Longrightarrow>
     w0 \<le> w \<and> w < LLC_WAYS \<and> repl_rrpv st cpu s w = MAX_RRPV
     \<and> (\<forall>v. w0 \<le> v \<and> v < w \<longrightarrow> repl_rrpv st cpu s v \<noteq> MAX_RRPV)"
proof (induction st cpu s w0 rule: scan_loop.induct)
  case (1 st cpu s w0)
  show ?case
  proof (cases "w0 < LLC_WAYS \<and> repl_rrpv st cpu s w0 \<noteq> MAX_RRPV")
    case True
    then have "scan_loop st cpu s (w0 + 1) = Some w"
      using "1.prems" by (subst (asm) scan_loop.simps) simp
    then have ih: "w0 + 1 \<le> w \<and> w < LLC_WAYS \<and> repl_rrpv st cpu s w = MAX_RRPV
        \<and> (\<forall>v. w0 + 1 \<le> v \<and> v < w \<longrightarrow> repl_rrpv st cpu s v \<noteq> MAX_RRPV)"
      using "1.IH" True by simp
    have "repl_rrpv st cpu s v \<noteq> MAX_RRPV" if "w0 \<le> v" "v < w" for v
    proof (cases "v = w0")
      case True
      then show ?thesis using \<open>w0 < LLC_WAYS \<and> repl_rrpv st cpu s w0 \<noteq> MAX_RRPV\<close> by simp
    next
      case False
      then show ?thesis using ih that by simp
    qed
    then show ?thesis using ih by simp
  next
    case False
    then show ?thesis
      using "1.prems" by (subst (asm) scan_loop.simps) (auto split: if_splits)
  qed
qed

lemma scan_loop_None:
  "scan_loop st cpu s w0 = None \<longleftrightarrow>
     (\<forall>v. w0 \<le> v \<and> v < LLC_WAYS \<longrightarrow> repl_rrpv st cpu s v \<noteq> MAX_RRPV)"
proof (induction st cpu s w0 rule: scan_loop.induct)
  case (1 st cpu s w0)
  show ?case
  proof (cases "w0 < LLC_WAYS")
    case True
    note inb = this
    show ?thesis
    proof (cases "repl_rrpv st cpu s w0 = MAX_RRPV")
      case True
      then show ?thesis using inb by (subst scan_loop.simps) auto
    next
      case False
      have "(\<forall>v. w0 \<le> v \<and> v < LLC_WAYS \<longrightarrow> repl_rrpv st cpu s v \<noteq> MAX_RRPV)
          \<longleftrightarrow> (\<forall>v. w0 + 1 \<le> v \<and> v < LLC_WAYS \<longrightarrow> repl_rrpv st cpu s v \<noteq> MAX_RRPV)"
        using False by (metis Suc_eq_plus1 Suc_leI le_neq_implies_less Suc_leD)
      then show ?thesis
        using "1.IH" [OF inb False] inb False by (subst scan_loop.simps) simp
    qed
  next
    case False
    then show ?thesis by (subst scan_loop.simps) auto
  qed
qed

lemma attempt_loop_unfold:
  "attempt_loop st cpu s 0 =
     (case scan_loop st cpu s 0 of
        Some w \<Rightarrow> (Some w, st)
      | None \<Rightarrow>
          (case scan_loop (age1_loop st cpu s 0) cpu s 0 of
             Some w \<Rightarrow> (Some w, age1_loop st cpu s 0)
           | None \<Rightarrow> (None, age2_loop (age1_loop st cpu s 0) cpu s 0)))"
proof -
  have two: "attempt_loop st' cpu s (Suc (Suc 0)) = (None, st')" for st'
    by (subst attempt_loop.simps) simp
  have one: "attempt_loop st' cpu s (Suc 0) =
      (case scan_loop st' cpu s 0 of Some w \<Rightarrow> (Some w, st')
       | None \<Rightarrow> (None, age2_loop st' cpu s 0))" for st'
    by (subst attempt_loop.simps) (simp add: two split: option.split)
  show ?thesis
    by (subst attempt_loop.simps) (simp add: one split: option.split)
qed

lemma GetVictimInSet_unfold:
  "GetVictimInSet st cpu s =
     (case scan_loop st cpu s 0 of
        Some w \<Rightarrow> (w, st)
      | None \<Rightarrow>
          (case scan_loop (age1_loop st cpu s 0) cpu s 0 of
             Some w \<Rightarrow> (w, age1_loop st cpu s 0)
           | None \<Rightarrow> (0, age2_loop (age1_loop st cpu s 0) cpu s 0)))"
  by (simp add: GetVictimInSet_def attempt_loop_unfold split: option.split)

lemma GetVictimInSet_frame:
  "repl_sig (snd (GetVictimInSet st cpu s)) = repl_sig st"
  "repl_reused (snd (GetVictimInSet st cpu s)) = repl_reused st"
  "SHCT (snd (GetVictimInSet st cpu s)) = SHCT st"
  "stat_hits (snd (GetVictimInSet st cpu s)) = stat_hits st"
  "stat_misses (snd (GetVictimInSet st cpu s)) = stat_misses st"
  by (simp_all add: GetVictimInSet_unfold age1_loop_frame age2_loop_frame split: option.split)

lemma GetVictimInSet_other_sets:
  "c \<noteq> cpu \<or> s' \<noteq> s \<Longrightarrow>
     repl_rrpv (snd (GetVictimInSet st cpu s)) c s' w = repl_rrpv st c s' w"
  by (auto simp: GetVictimInSet_unfold age1_loop_rrpv age2_loop_rrpv split: option.split)

lemma sat_inc_unat:
  assumes "c \<le> m"
  shows "unat (sat_inc c m) = min (unat c + 1) (unat m)"
proof (cases "c < m")
  case True
  have "unat m < 256" using unsigned_less [of m, where 'a = nat] by simp
  then have "unat c + 1 < 256" using True by (simp add: word_less_nat_alt)
  then have "unat (c + 1) = unat c + 1" by (simp add: unat_word_ariths)
  then show ?thesis using True by (simp add: sat_inc_def word_less_nat_alt)
next
  case False
  then show ?thesis using assms by (simp add: sat_inc_def word_le_nat_alt word_less_nat_alt)
qed

lemma sat_dec_unat: "unat (sat_dec c) = unat c - 1"
proof (cases "c > 0")
  case True
  then have "1 \<le> c" by (simp add: word_le_nat_alt word_less_nat_alt)
  then have "unat (c - 1) = unat c - 1" by (simp add: unat_sub)
  then show ?thesis using True by (simp add: sat_dec_def)
next
  case False
  then have "c = 0" by (simp add: word_gt_0)
  then show ?thesis by (simp add: sat_dec_def)
qed

lemma sat_inc_le: "c \<le> m \<Longrightarrow> sat_inc c m \<le> m"
  by (simp add: word_le_nat_alt sat_inc_unat)

lemma sat_dec_le: "c \<le> m \<Longrightarrow> sat_dec c \<le> m"
  by (simp add: word_le_nat_alt sat_dec_unat)

lemma mask_sig: "of_nat SHCT_SIZE - 1 = (mask 10 :: 16 word)"
  by (simp add: SHCT_SIZE_def mask_eq_exp_minus_1)

lemma mask_sig32: "of_nat SHCT_SIZE - 1 = (mask 10 :: 32 word)"
  by (simp add: SHCT_SIZE_def mask_eq_exp_minus_1)

lemma masked_sig_unat: "unat ((x :: 16 word) AND (of_nat SHCT_SIZE - 1)) = unat x mod SHCT_SIZE"
proof -
  have "x AND (of_nat SHCT_SIZE - 1) = take_bit 10 x"
    unfolding mask_sig by (simp only: take_bit_eq_mask)
  then have "unat (x AND (of_nat SHCT_SIZE - 1)) = take_bit 10 (unat x)"
    by (simp only: unsigned_take_bit_eq)
  then show ?thesis
    by (simp only: take_bit_eq_mod SHCT_SIZE_def) simp
qed

lemma masked_sig_bound: "unat ((x :: 16 word) AND (of_nat SHCT_SIZE - 1)) < SHCT_SIZE"
  by (simp only: masked_sig_unat) (simp add: SHCT_SIZE_def)

lemma masked_sig_id:
  "unat (x :: 16 word) < SHCT_SIZE \<Longrightarrow> x AND (of_nat SHCT_SIZE - 1) = x"
  by (rule word_unat_eq_iff [THEN iffD2]) (simp only: masked_sig_unat mod_less)

lemma new_signature_unat:
  "unat (new_signature PC) = (unat PC div 2 ^ SIGN_SHIFT) mod SHCT_SIZE"
proof -
  have "unat (new_signature PC)
      = take_bit 16 (take_bit 10 (take_bit 32 (drop_bit 4 (unat PC))))"
    unfolding new_signature_def mask_sig32
    by (simp add: SIGN_SHIFT_def unsigned_ucast_eq
        unsigned_take_bit_eq unat_drop_bit_eq flip: take_bit_eq_mask)
  also have "\<dots> = take_bit 10 (drop_bit 4 (unat PC))"
    by simp
  finally show ?thesis
    by (simp add: take_bit_eq_mod drop_bit_eq_div SHCT_SIZE_def SIGN_SHIFT_def)
qed

lemma new_signature_bound: "unat (new_signature PC) < SHCT_SIZE"
  by (simp add: new_signature_unat SHCT_SIZE_def)

lemma age1_le: "r < MAX_RRPV \<Longrightarrow> r + 1 \<le> MAX_RRPV"
  by (rule inc_le)

lemma age2_le:
  "\<not> unat r + 2 > unat MAX_RRPV \<Longrightarrow> r + 2 \<le> MAX_RRPV"
  by (simp add: MAX_RRPV_val word_le_nat_alt unat_word_ariths)

lemma insertion_rrpv_le: "insertion_rrpv pred \<le> MAX_RRPV"
  by (simp add: insertion_rrpv_def MAX_RRPV_val)

subsection \<open>The two paths of the update\<close>

lemma Update_hit:
  assumes "hit \<noteq> 0"
  shows "UpdateReplacementState st cpu s way PC hit =
     st\<lparr>stat_hits := stat_hits st + 1,
        repl_reused := upd3 (repl_reused st) cpu s way 1,
        repl_rrpv := upd3 (repl_rrpv st) cpu s way 0,
        SHCT := (SHCT st)
          (unat (repl_sig st cpu s way AND (of_nat SHCT_SIZE - 1)) :=
             sat_inc (SHCT st (unat (repl_sig st cpu s way AND (of_nat SHCT_SIZE - 1)))) SHCT_MAX)\<rparr>"
proof -
  define sg where "sg = repl_sig st cpu s way AND (of_nat SHCT_SIZE - 1)"
  have "unat sg < SHCT_SIZE"
    unfolding sg_def by (rule masked_sig_bound)
  then show ?thesis
    unfolding UpdateReplacementState_def Let_def using assms
    by (simp flip: sg_def)
qed

lemma shct_learn_eq:
  "shct_learn shct sg r =
     shct(unat (sg AND (of_nat SHCT_SIZE - 1)) :=
       (if r \<noteq> 0 then sat_inc (shct (unat (sg AND (of_nat SHCT_SIZE - 1)))) SHCT_MAX
        else sat_dec (shct (unat (sg AND (of_nat SHCT_SIZE - 1))))))"
proof -
  define m where "m = sg AND (of_nat SHCT_SIZE - 1)"
  have "unat m < SHCT_SIZE"
    unfolding m_def by (rule masked_sig_bound)
  then show ?thesis
    unfolding shct_learn_def Let_def m_def [symmetric] by simp
qed

lemma shct_learn_le:
  assumes "\<forall>i < SHCT_SIZE. shct i \<le> SHCT_MAX" and "i < SHCT_SIZE"
  shows "shct_learn shct sg r i \<le> SHCT_MAX"
proof -
  define m where "m = sg AND (of_nat SHCT_SIZE - 1)"
  have "unat m < SHCT_SIZE"
    unfolding m_def by (rule masked_sig_bound)
  then show ?thesis
    unfolding shct_learn_eq m_def [symmetric] using assms
    by (simp add: sat_inc_le sat_dec_le)
qed

lemma Update_miss:
  "UpdateReplacementState st cpu s way PC 0 =
     st\<lparr>stat_misses := stat_misses st + 1,
        SHCT := shct_learn (SHCT st) (repl_sig st cpu s way) (repl_reused st cpu s way),
        repl_sig := upd3 (repl_sig st) cpu s way (new_signature PC),
        repl_reused := upd3 (repl_reused st) cpu s way 0,
        repl_rrpv := upd3 (repl_rrpv st) cpu s way
          (insertion_rrpv
             (shct_learn (SHCT st) (repl_sig st cpu s way) (repl_reused st cpu s way)
                (unat (new_signature PC))))\<rparr>"
  unfolding UpdateReplacementState_def Let_def by simp

subsection \<open>The bounds are an invariant\<close>

lemma state_ok_Init: "state_ok (InitReplacementState st)"
  by (simp add: state_ok_def Init_rrpv Init_sig Init_reused Init_SHCT SHCT_SIZE_def
      SHCT_INIT_def SHCT_MAX_def)

lemma age1_loop_le:
  "repl_rrpv st c s' w \<le> MAX_RRPV \<Longrightarrow> repl_rrpv (age1_loop st cpu s w0) c s' w \<le> MAX_RRPV"
  by (auto simp: age1_loop_rrpv age1_le)

lemma age2_loop_le:
  "repl_rrpv st c s' w \<le> MAX_RRPV \<Longrightarrow> repl_rrpv (age2_loop st cpu s w0) c s' w \<le> MAX_RRPV"
  by (auto simp: age2_loop_rrpv age2_le)

lemma GetVictimInSet_le:
  "repl_rrpv st c s' w \<le> MAX_RRPV \<Longrightarrow>
     repl_rrpv (snd (GetVictimInSet st cpu s)) c s' w \<le> MAX_RRPV"
  by (simp add: GetVictimInSet_unfold age1_loop_le age2_loop_le split: option.split)

lemma state_ok_GetVictimInSet:
  "state_ok st \<Longrightarrow> state_ok (snd (GetVictimInSet st cpu s))"
  by (simp add: state_ok_def GetVictimInSet_frame GetVictimInSet_le)

lemma state_ok_Update:
  assumes "state_ok st"
  shows "state_ok (UpdateReplacementState st cpu s way PC hit)"
proof (cases "hit = 0")
  case True
  have "shct_learn (SHCT st) sg r i \<le> SHCT_MAX" if "i < SHCT_SIZE" for sg r i
    using assms that by (intro shct_learn_le) (simp_all add: state_ok_def)
  then show ?thesis
    using assms True
    by (simp add: Update_miss state_ok_def new_signature_bound insertion_rrpv_le)
next
  case False
  define m where "m = repl_sig st cpu s way AND (of_nat SHCT_SIZE - 1)"
  have "unat m < SHCT_SIZE"
    unfolding m_def by (rule masked_sig_bound)
  then show ?thesis
    using assms False unfolding Update_hit [OF False] m_def [symmetric]
    by (simp add: state_ok_def sat_inc_le)
qed

lemma reachable_state_ok: "reachable st \<Longrightarrow> state_ok st"
  by (induction rule: reachable.induct)
    (simp_all add: state_ok_Init state_ok_GetVictimInSet state_ok_Update)

subsection \<open>The baseline variant\<close>

lemma base_GetVictimInSet_keeps:
  assumes "base_GetVictimInSet st cpu s = Some y"
  shows "repl_sig (snd y) = repl_sig st \<and> repl_reused (snd y) = repl_reused st
     \<and> SHCT (snd y) = SHCT st
     \<and> (\<forall>c s' v. repl_rrpv st c s' v \<le> MAX_RRPV \<longrightarrow> repl_rrpv (snd y) c s' v \<le> MAX_RRPV)"
proof (rule base_GetVictimInSet.raw_induct
    [where P = "\<lambda>st cpu s y. repl_sig (snd y) = repl_sig st \<and> repl_reused (snd y) = repl_reused st
     \<and> SHCT (snd y) = SHCT st
     \<and> (\<forall>c s' v. repl_rrpv st c s' v \<le> MAX_RRPV \<longrightarrow> repl_rrpv (snd y) c s' v \<le> MAX_RRPV)",
     OF _ assms])
  fix f :: "repl_state \<Rightarrow> nat \<Rightarrow> nat \<Rightarrow> (nat \<times> repl_state) option"
  fix st cpu s y
  assume ih: "\<And>st cpu s y. f st cpu s = Some y \<Longrightarrow>
     repl_sig (snd y) = repl_sig st \<and> repl_reused (snd y) = repl_reused st
     \<and> SHCT (snd y) = SHCT st
     \<and> (\<forall>c s' v. repl_rrpv st c s' v \<le> MAX_RRPV \<longrightarrow> repl_rrpv (snd y) c s' v \<le> MAX_RRPV)"
  assume eq: "(case scan_loop st cpu s 0 of
      None \<Rightarrow> f (age1_loop st cpu s 0) cpu s | Some w \<Rightarrow> Some (w, st)) = Some y"
  show "repl_sig (snd y) = repl_sig st \<and> repl_reused (snd y) = repl_reused st
     \<and> SHCT (snd y) = SHCT st
     \<and> (\<forall>c s' v. repl_rrpv st c s' v \<le> MAX_RRPV \<longrightarrow> repl_rrpv (snd y) c s' v \<le> MAX_RRPV)"
  proof (cases "scan_loop st cpu s 0")
    case None
    then have "f (age1_loop st cpu s 0) cpu s = Some y"
      using eq by simp
    from ih [OF this] show ?thesis
      by (simp add: age1_loop_frame age1_loop_le)
  next
    case (Some v)
    then show ?thesis using eq by auto
  qed
qed

lemma base_shct_learn_eq:
  "unat sg < SHCT_SIZE \<Longrightarrow> base_shct_learn shct sg r = shct_learn shct sg r"
  by (simp add: shct_learn_eq masked_sig_id base_shct_learn_def sat_inc_def sat_dec_def)

lemma base_Update_hit:
  "hit \<noteq> 0 \<Longrightarrow> base_UpdateReplacementState st cpu s way PC hit =
     st\<lparr>stat_hits := stat_hits st + 1,
        repl_reused := upd3 (repl_reused st) cpu s way 1,
        repl_rrpv := upd3 (repl_rrpv st) cpu s way 0\<rparr>"
  unfolding base_UpdateReplacementState_def Let_def by simp

lemma base_Update_miss:
  "base_UpdateReplacementState st cpu s way PC 0 =
     st\<lparr>stat_misses := stat_misses st + 1,
        SHCT := base_shct_learn (SHCT st) (repl_sig st cpu s way) (repl_reused st cpu s way),
        repl_sig := upd3 (repl_sig st) cpu s way (new_signature PC),
        repl_reused := upd3 (repl_reused st) cpu s way 0,
        repl_rrpv := upd3 (repl_rrpv st) cpu s way
          (if base_shct_learn (SHCT st) (repl_sig st cpu s way) (repl_reused st cpu s way)
                (unat (new_signature PC)) \<ge> THRESHOLD
           then 0 else MAX_RRPV - 1)\<rparr>"
  unfolding base_UpdateReplacementState_def Let_def by simp

lemma state_ok_base_Update:
  assumes "state_ok st" and "cpu < NUM_CORE" and "s < LLC_SETS" and "way < LLC_WAYS"
  shows "state_ok (base_UpdateReplacementState st cpu s way PC hit)"
proof (cases "hit = 0")
  case True
  have sg: "unat (repl_sig st cpu s way) < SHCT_SIZE"
    using assms by (simp add: state_ok_def)
  have "shct_learn (SHCT st) sg r i \<le> SHCT_MAX" if "i < SHCT_SIZE" for sg r i
    using assms that by (intro shct_learn_le) (simp_all add: state_ok_def)
  then show ?thesis
    using assms(1) True
    by (simp add: base_Update_miss base_shct_learn_eq [OF sg] state_ok_def
        new_signature_bound MAX_RRPV_val)
next
  case False
  then show ?thesis
    using assms(1) by (simp add: base_Update_hit state_ok_def)
qed

lemma state_ok_base_GetVictimInSet:
  "state_ok st \<Longrightarrow> base_GetVictimInSet st cpu s = Some (w, st') \<Longrightarrow> state_ok st'"
  using base_GetVictimInSet_keeps [of st cpu s "(w, st')"] by (simp add: state_ok_def)

lemma base_reachable_state_ok: "base_reachable st \<Longrightarrow> state_ok st"
  by (induction rule: base_reachable.induct)
    (simp_all add: state_ok_Init state_ok_base_GetVictimInSet state_ok_base_Update)

section \<open>Concrete states and evaluation lemmas\<close>

lemma static_storage_cells:
  "repl_rrpv static_storage c s w = 0" "repl_sig static_storage c s w = 0"
  "repl_reused static_storage c s w = 0" "SHCT static_storage i = 0"
  "stat_hits static_storage = 0" "stat_misses static_storage = 0"
  by (simp_all add: static_storage_def)

lemma static_storage_scans:
  "scan_loop static_storage cpu s 0 = None"
  "scan_loop (age1_loop static_storage cpu s 0) cpu s 0 = None"
  by (simp_all add: scan_loop_None age1_loop_rrpv static_storage_cells MAX_RRPV_val)

lemma fresh_reachable: "reachable (InitReplacementState static_storage)"
  by (rule reachable.r_init)

lemma in_range_0_5_3: "(0::nat) < NUM_CORE" "(5::nat) < LLC_SETS" "(3::nat) < LLC_WAYS"
  by (simp_all add: NUM_CORE_def LLC_SETS_def LLC_WAYS_def)

lemma fresh_cells:
  "repl_sig (InitReplacementState static_storage) 0 5 3 = 0"
  "repl_reused (InitReplacementState static_storage) 0 5 3 = 0"
  "SHCT (InitReplacementState static_storage) 0 = 4"
  "SHCT (InitReplacementState static_storage) 9 = 4"
  by (simp_all add: Init_sig Init_reused Init_SHCT in_range_0_5_3 SHCT_SIZE_def SHCT_INIT_def)

lemma fresh_hit_cells:
  "repl_sig (UpdateReplacementState (InitReplacementState static_storage) 0 5 3 64 1) 0 5 3 = 0"
  "repl_reused (UpdateReplacementState (InitReplacementState static_storage) 0 5 3 64 1) 0 5 3 = 1"
  "SHCT (UpdateReplacementState (InitReplacementState static_storage) 0 5 3 64 1) 0 = 5"
  by (simp_all add: Update_hit fresh_cells sat_inc_def SHCT_MAX_def)

lemma tiers_disjoint:
  "THRESHOLD = 4" "THRESHOLD + 2 = 6"
  by (simp_all add: THRESHOLD_def SHCT_INIT_def)

lemma new_signature_64: "new_signature 64 = 4"
  by (simp add: new_signature_def SIGN_SHIFT_def SHCT_SIZE_def)

lemma new_signature_74565: "new_signature 74565 = 564"
  by (simp add: new_signature_def SIGN_SHIFT_def SHCT_SIZE_def)

subsection \<open>The learning step, entry by entry\<close>

lemma shct_learn_other:
  "i \<noteq> unat (sg AND (of_nat SHCT_SIZE - 1)) \<Longrightarrow> shct_learn shct sg r i = shct i"
  unfolding shct_learn_eq by simp

lemma shct_learn_at:
  assumes "unat sg < SHCT_SIZE"
  shows "shct_learn shct sg r (unat sg) =
    (if r \<noteq> 0 then sat_inc (shct (unat sg)) SHCT_MAX else sat_dec (shct (unat sg)))"
  unfolding shct_learn_eq masked_sig_id [OF assms] by simp

lemma shct_learn_elsewhere:
  assumes "unat sg < SHCT_SIZE" and "i \<noteq> unat sg"
  shows "shct_learn shct sg r i = shct i"
  unfolding shct_learn_eq masked_sig_id [OF assms(1)] using assms(2) by simp

lemma learn_iter_inc:
  assumes "unat sg < SHCT_SIZE" and "shct (unat sg) \<le> SHCT_MAX" and "r \<noteq> 0"
  shows "unat (((\<lambda>t. shct_learn t sg r) ^^ n) shct (unat sg)) = min (unat (shct (unat sg)) + n) 7"
proof (induction n)
  case 0
  show ?case using assms(2) by (simp add: word_le_nat_alt SHCT_MAX_def)
next
  case (Suc n)
  define X where "X = ((\<lambda>t. shct_learn t sg r) ^^ n) shct"
  have v: "unat (X (unat sg)) = min (unat (shct (unat sg)) + n) 7"
    unfolding X_def by (rule Suc.IH)
  then have "X (unat sg) \<le> SHCT_MAX"
    by (simp add: word_le_nat_alt SHCT_MAX_def)
  then have "unat (sat_inc (X (unat sg)) SHCT_MAX) = min (unat (X (unat sg)) + 1) 7"
    using sat_inc_unat [of "X (unat sg)" SHCT_MAX] by (simp add: SHCT_MAX_def)
  then show ?case
    using assms(3) v by (simp add: shct_learn_at [OF assms(1)] flip: X_def)
qed

lemma learn_iter_dec:
  assumes "unat sg < SHCT_SIZE"
  shows "unat (((\<lambda>t. shct_learn t sg 0) ^^ n) shct (unat sg)) = unat (shct (unat sg)) - n"
proof (induction n)
  case 0
  show ?case by simp
next
  case (Suc n)
  then show ?case
    by (simp add: shct_learn_at [OF assms] sat_dec_unat)
qed

subsection \<open>The access sequence\<close>

lemma GetVictimInSet_way_lt: "fst (GetVictimInSet st cpu s) < LLC_WAYS"
proof (cases "scan_loop st cpu s 0")
  case (Some w)
  then show ?thesis
    using scan_loop_Some [OF Some] by (simp add: GetVictimInSet_unfold)
next
  case None
  note first = this
  show ?thesis
  proof (cases "scan_loop (age1_loop st cpu s 0) cpu s 0")
    case (Some w)
    then show ?thesis
      using scan_loop_Some [OF Some] first by (simp add: GetVictimInSet_unfold)
  next
    case None
    then show ?thesis
      using first by (simp add: GetVictimInSet_unfold LLC_WAYS_def)
  qed
qed

lemma scan_loop_first:
  assumes "w0 \<le> k" and "k < LLC_WAYS" and "repl_rrpv st cpu s k = MAX_RRPV"
    and "\<forall>v. w0 \<le> v \<and> v < k \<longrightarrow> repl_rrpv st cpu s v \<noteq> MAX_RRPV"
  shows "scan_loop st cpu s w0 = Some k"
proof (cases "scan_loop st cpu s w0")
  case None
  then show ?thesis
    using assms(1-3) by (simp add: scan_loop_None)
next
  case (Some w)
  note f = scan_loop_Some [OF Some]
  have "\<not> w < k" using f assms(4) by blast
  moreover have "\<not> k < w" using f assms(1,3) by blast
  ultimately show ?thesis using Some by simp
qed

lemma miss_access_eq:
  "miss_access st PC =
     UpdateReplacementState (snd (GetVictimInSet st 0 0)) 0 0 (fst (GetVictimInSet st 0 0)) PC 0"
  by (simp add: miss_access_def case_prod_beta)

lemma miss_access_reachable: "reachable st \<Longrightarrow> reachable (miss_access st PC)"
proof -
  assume r: "reachable st"
  have c: "(0::nat) < NUM_CORE" "(0::nat) < LLC_SETS"
    by (simp_all add: NUM_CORE_def LLC_SETS_def)
  have "reachable (UpdateReplacementState (snd (GetVictimInSet st 0 0)) 0 0
      (fst (GetVictimInSet st 0 0)) PC 0)"
    by (intro reachable.r_update reachable.r_victim r c GetVictimInSet_way_lt)
  then show ?thesis
    by (simp add: miss_access_eq)
qed

lemma insertion_rrpv_4: "insertion_rrpv 4 = 1"
  by (simp add: insertion_rrpv_def THRESHOLD_def SHCT_INIT_def)

lemma new_signature_times_16:
  assumes "n < SHCT_SIZE"
  shows "new_signature (16 * of_nat n) = of_nat n"
proof -
  have n: "n < 1024" using assms by (simp add: SHCT_SIZE_def)
  have "unat (16 * of_nat n :: 64 word) = 16 * n"
    using n by (simp add: unat_word_ariths unat_of_nat)
  then have "unat (new_signature (16 * of_nat n)) = n"
    using n by (simp add: new_signature_unat SIGN_SHIFT_def SHCT_SIZE_def)
  moreover have "unat (of_nat n :: 16 word) = n"
    using n by (simp add: unat_of_nat)
  ultimately show ?thesis
    by (simp add: word_unat_eq_iff)
qed

lemma unat_small_sig: "n < SHCT_SIZE \<Longrightarrow> unat (of_nat n :: 16 word) = n"
  by (simp add: unat_of_nat SHCT_SIZE_def)

lemma cold_misses_reachable: "reachable (cold_misses n)"
  by (induction n) (simp_all add: reachable.r_init miss_access_reachable)

lemma cold_ok_0: "cold_ok 0 (cold_misses 0)"
  by (simp add: cold_ok_def Init_rrpv Init_sig Init_reused Init_SHCT Init_stats NUM_CORE_def
      LLC_SETS_def SHCT_SIZE_def SHCT_INIT_def)

lemma cold_ok_step:
  assumes "cold_ok n st" and "n < LLC_WAYS"
  shows "cold_ok (Suc n) (miss_access st (16 * of_nat (Suc n)))"
proof -
  have n: "Suc n < SHCT_SIZE" "Suc n \<le> 17"
    using assms(2) by (simp_all add: LLC_WAYS_def SHCT_SIZE_def)
  have scan: "scan_loop st 0 0 0 = Some n"
    using assms by (intro scan_loop_first) (auto simp: cold_ok_def MAX_RRPV_val)
  then have gv: "GetVictimInSet st 0 0 = (n, st)"
    by (simp add: GetVictimInSet_unfold)
  have sg: "repl_sig st 0 0 n = 0" and ru: "repl_reused st 0 0 n = 0"
    using assms by (simp_all add: cold_ok_def)
  have tab: "shct_learn (SHCT st) 0 0 i = 4" if "1 \<le> i" "i \<le> 17" for i
    using assms(1) that by (simp add: shct_learn_elsewhere SHCT_SIZE_def cold_ok_def)
  have ns: "new_signature (16 * of_nat (Suc n)) = of_nat (Suc n)"
    by (rule new_signature_times_16 [OF n(1)])
  have st': "miss_access st (16 * of_nat (Suc n)) =
      st\<lparr>stat_misses := stat_misses st + 1,
         SHCT := shct_learn (SHCT st) 0 0,
         repl_sig := upd3 (repl_sig st) 0 0 n (of_nat (Suc n)),
         repl_reused := upd3 (repl_reused st) 0 0 n 0,
         repl_rrpv := upd3 (repl_rrpv st) 0 0 n 1\<rparr>"
    unfolding miss_access_eq gv fst_conv snd_conv Update_miss sg ru ns
      unat_small_sig [OF n(1)] tab [of "Suc n", OF _ n(2), simplified] insertion_rrpv_4 ..
  show ?thesis
    unfolding st' using assms tab by (auto simp: cold_ok_def)
qed

lemma cold_ok_misses: "n \<le> LLC_WAYS \<Longrightarrow> cold_ok n (cold_misses n)"
proof (induction n)
  case 0
  show ?case by (rule cold_ok_0)
next
  case (Suc n)
  then show ?case
    using cold_ok_step [of n "cold_misses n"] by simp
qed

lemma new_signature_272: "new_signature 272 = 17"
  by (simp add: new_signature_def SIGN_SHIFT_def SHCT_SIZE_def)

lemma one_sig_masked: "unat ((1 :: 16 word) AND (of_nat SHCT_SIZE - 1)) = 1"
  by (simp add: masked_sig_unat SHCT_SIZE_def)

lemma hit_state_cells:
  "\<forall>w < LLC_WAYS. repl_rrpv hit_state 0 0 w = (if w = 0 then 0 else 1)"
  "repl_sig hit_state 0 0 0 = 1" "repl_reused hit_state 0 0 0 = 1"
  "SHCT hit_state 1 = 5" "SHCT hit_state 17 = 4" "stat_hits hit_state = 1"
proof -
  let ?st = "cold_misses 16"
  have ok: "cold_ok 16 ?st"
    using cold_ok_misses [of 16] by (simp add: LLC_WAYS_def)
  have row: "\<forall>w < LLC_WAYS. repl_rrpv ?st 0 0 w = 1"
    and sg: "repl_sig ?st 0 0 0 = 1"
    and tab: "SHCT ?st 1 = 4" "SHCT ?st 17 = 4" and hits: "stat_hits ?st = 0"
    using ok by (simp_all add: cold_ok_def LLC_WAYS_def)
  have nz: "(1 :: 8 word) \<noteq> 0" by simp
  have st': "hit_state = ?st\<lparr>stat_hits := stat_hits ?st + 1,
        repl_reused := upd3 (repl_reused ?st) 0 0 0 1,
        repl_rrpv := upd3 (repl_rrpv ?st) 0 0 0 0,
        SHCT := (SHCT ?st)(1 := sat_inc (SHCT ?st 1) SHCT_MAX)\<rparr>"
    unfolding hit_state_def Update_hit [OF nz] sg one_sig_masked ..
  show "\<forall>w < LLC_WAYS. repl_rrpv hit_state 0 0 w = (if w = 0 then 0 else 1)"
    unfolding st' using row by simp
  show "repl_sig hit_state 0 0 0 = 1"
    unfolding st' using sg by simp
  show "repl_reused hit_state 0 0 0 = 1"
    unfolding st' by simp
  show "SHCT hit_state 1 = 5"
    unfolding st' using tab by (simp add: sat_inc_def SHCT_MAX_def)
  show "SHCT hit_state 17 = 4"
    unfolding st' using tab by simp
  show "stat_hits hit_state = 1"
    unfolding st' using hits by simp
qed

lemma hit_state_reachable: "reachable hit_state"
  unfolding hit_state_def
  by (intro reachable.r_update cold_misses_reachable)
    (simp_all add: NUM_CORE_def LLC_SETS_def LLC_WAYS_def)

lemma hit_state_victim:
  "scan_loop hit_state 0 0 0 = None"
  "scan_loop (age1_loop hit_state 0 0 0) 0 0 0 = None"
  "GetVictimInSet hit_state 0 0 = (0, age2_loop (age1_loop hit_state 0 0 0) 0 0 0)"
  "\<forall>w < LLC_WAYS. repl_rrpv (age2_loop (age1_loop hit_state 0 0 0) 0 0 0) 0 0 w
      = (if w = 0 then 3 else 4)"
proof -
  note row = hit_state_cells(1)
  show s1: "scan_loop hit_state 0 0 0 = None"
    using row by (simp add: scan_loop_None MAX_RRPV_val)
  show s2: "scan_loop (age1_loop hit_state 0 0 0) 0 0 0 = None"
    using row by (simp add: scan_loop_None age1_loop_rrpv MAX_RRPV_val)
  show "GetVictimInSet hit_state 0 0 = (0, age2_loop (age1_loop hit_state 0 0 0) 0 0 0)"
    by (simp add: GetVictimInSet_unfold s1 s2)
  show "\<forall>w < LLC_WAYS. repl_rrpv (age2_loop (age1_loop hit_state 0 0 0) 0 0 0) 0 0 w
      = (if w = 0 then 3 else 4)"
    using row by (simp add: age1_loop_rrpv age2_loop_rrpv MAX_RRPV_val)
qed

lemma thrash_state_reachable: "reachable thrash_state"
  unfolding thrash_state_def by (intro miss_access_reachable hit_state_reachable)

lemma thrash_state_row:
  "\<forall>w < LLC_WAYS. repl_rrpv thrash_state 0 0 w = (if w = 0 then 1 else 4)"
proof -
  have pred: "shct_learn (SHCT hit_state) 1 1 17 = 4"
    using hit_state_cells(5) by (simp add: shct_learn_elsewhere SHCT_SIZE_def)
  show ?thesis
    using hit_state_victim(4)
    by (simp add: thrash_state_def miss_access_eq hit_state_victim(3) Update_miss
        age1_loop_frame age2_loop_frame hit_state_cells(2,3) new_signature_272 pred
        insertion_rrpv_4)
qed

lemma thrash_state_victim:
  "scan_loop thrash_state 0 0 0 = None"
  "scan_loop (age1_loop thrash_state 0 0 0) 0 0 0 = None"
  "GetVictimInSet thrash_state 0 0 = (0, age2_loop (age1_loop thrash_state 0 0 0) 0 0 0)"
  "\<forall>w < LLC_WAYS. repl_rrpv (age2_loop (age1_loop thrash_state 0 0 0) 0 0 0) 0 0 w
      = (if w = 0 then 4 else MAX_RRPV)"
proof -
  note row = thrash_state_row
  show s1: "scan_loop thrash_state 0 0 0 = None"
    using row by (simp add: scan_loop_None MAX_RRPV_val)
  show s2: "scan_loop (age1_loop thrash_state 0 0 0) 0 0 0 = None"
    using row by (simp add: scan_loop_None age1_loop_rrpv MAX_RRPV_val)
  show "GetVictimInSet thrash_state 0 0 = (0, age2_loop (age1_loop thrash_state 0 0 0) 0 0 0)"
    by (simp add: GetVictimInSet_unfold s1 s2)
  show "\<forall>w < LLC_WAYS. repl_rrpv (age2_loop (age1_loop thrash_state 0 0 0) 0 0 0) 0 0 w
      = (if w = 0 then 4 else MAX_RRPV)"
    using row by (simp add: age1_loop_rrpv age2_loop_rrpv MAX_RRPV_val)
qed

subsection \<open>The baseline search returns\<close>

lemma base_GetVictimInSet_returns:
  assumes "repl_rrpv st cpu s 0 \<le> MAX_RRPV"
  shows "\<exists>w st'. base_GetVictimInSet st cpu s = Some (w, st') \<and> w < LLC_WAYS
    \<and> repl_rrpv st' cpu s w = MAX_RRPV"
  using assms
proof (induction "7 - unat (repl_rrpv st cpu s 0)" arbitrary: st rule: less_induct)
  case less
  show ?case
  proof (cases "scan_loop st cpu s 0")
    case (Some w)
    then have "base_GetVictimInSet st cpu s = Some (w, st)"
      by (subst base_GetVictimInSet.simps) simp
    then show ?thesis
      using scan_loop_Some [OF Some] by simp
  next
    case None
    then have "repl_rrpv st cpu s 0 \<noteq> MAX_RRPV"
      by (simp add: scan_loop_None LLC_WAYS_def)
    then have lt: "repl_rrpv st cpu s 0 < MAX_RRPV"
      using less.prems by simp
    let ?st = "age1_loop st cpu s 0"
    have r: "repl_rrpv ?st cpu s 0 = repl_rrpv st cpu s 0 + 1"
      using lt by (simp add: age1_loop_rrpv LLC_WAYS_def)
    have u: "unat (repl_rrpv st cpu s 0 + 1) = unat (repl_rrpv st cpu s 0) + 1"
      using lt by (simp add: MAX_RRPV_val word_less_nat_alt unat_word_ariths)
    have "7 - unat (repl_rrpv ?st cpu s 0) < 7 - unat (repl_rrpv st cpu s 0)"
      using lt by (simp add: r u MAX_RRPV_val word_less_nat_alt)
    moreover have "repl_rrpv ?st cpu s 0 \<le> MAX_RRPV"
      using lt by (simp add: r age1_le)
    ultimately have "\<exists>w st'. base_GetVictimInSet ?st cpu s = Some (w, st') \<and> w < LLC_WAYS
        \<and> repl_rrpv st' cpu s w = MAX_RRPV"
      by (rule less.hyps)
    moreover have "base_GetVictimInSet st cpu s = base_GetVictimInSet ?st cpu s"
      using None by (subst base_GetVictimInSet.simps) simp
    ultimately show ?thesis by simp
  qed
qed

section \<open>Victim selection: the second aging pass\<close>

text \<open>
  Claim C1. The claim: whenever neither the initial scan nor the scan after the +1 aging
  pass finds a line at \<open>MAX_RRPV\<close>, the +2 pass is applied and the selector returns the
  lowest-index way whose \<open>repl_rrpv\<close> is \<open>MAX_RRPV\<close> after that pass. The code applies
  the +2 pass, but the attempt loop ends right after it: no scan reads the state the
  pass leaves, and the function returns way 0. Two states of one access sequence show
  it. In \<open>hit_state\<close> (sixteen misses with distinct signatures filling set 0, then a hit
  on way 0) both scans fail, the two passes leave way 0 at 3 and ways 1 to 15 at 4, no
  line is at \<open>MAX_RRPV\<close>, and way 0, the line just hit, is returned. In \<open>thrash_state\<close>
  (after the miss that follows) both scans fail again, the +2 pass brings ways 1 to 15
  to \<open>MAX_RRPV\<close> and leaves way 0 at 4, the lowest-index way at \<open>MAX_RRPV\<close> is way 1 (a
  scan of the final state returns it), and the function returns way 0.
\<close>

theorem second_aging_not_rescanned:
  "scan_loop hit_state 0 0 0 = None
   \<and> scan_loop (age1_loop hit_state 0 0 0) 0 0 0 = None
   \<and> GetVictimInSet hit_state 0 0 = (0, age2_loop (age1_loop hit_state 0 0 0) 0 0 0)
   \<and> repl_rrpv (snd (GetVictimInSet hit_state 0 0)) 0 0 0 = 3
   \<and> scan_loop (snd (GetVictimInSet hit_state 0 0)) 0 0 0 = None
   \<and> scan_loop thrash_state 0 0 0 = None
   \<and> scan_loop (age1_loop thrash_state 0 0 0) 0 0 0 = None
   \<and> GetVictimInSet thrash_state 0 0 = (0, age2_loop (age1_loop thrash_state 0 0 0) 0 0 0)
   \<and> repl_rrpv (snd (GetVictimInSet thrash_state 0 0)) 0 0 0 = 4
   \<and> repl_rrpv (snd (GetVictimInSet thrash_state 0 0)) 0 0 1 = MAX_RRPV
   \<and> scan_loop (snd (GetVictimInSet thrash_state 0 0)) 0 0 0 = Some 1"
proof -
  note hv = hit_state_victim
  have h0: "repl_rrpv (age2_loop (age1_loop hit_state 0 0 0) 0 0 0) 0 0 0 = 3"
    using hv(4) by (simp add: LLC_WAYS_def)
  have hn: "scan_loop (age2_loop (age1_loop hit_state 0 0 0) 0 0 0) 0 0 0 = None"
    using hv(4) by (simp add: scan_loop_None MAX_RRPV_val)
  note row = thrash_state_row
  have s1: "scan_loop thrash_state 0 0 0 = None"
    using row by (simp add: scan_loop_None MAX_RRPV_val)
  have s2: "scan_loop (age1_loop thrash_state 0 0 0) 0 0 0 = None"
    using row by (simp add: scan_loop_None age1_loop_rrpv MAX_RRPV_val)
  have gv: "GetVictimInSet thrash_state 0 0 = (0, age2_loop (age1_loop thrash_state 0 0 0) 0 0 0)"
    by (simp add: GetVictimInSet_unfold s1 s2)
  have r0: "repl_rrpv (age2_loop (age1_loop thrash_state 0 0 0) 0 0 0) 0 0 0 = 4"
    using row by (simp add: age1_loop_rrpv age2_loop_rrpv MAX_RRPV_val LLC_WAYS_def)
  have r1: "repl_rrpv (age2_loop (age1_loop thrash_state 0 0 0) 0 0 0) 0 0 1 = MAX_RRPV"
    using row by (simp add: age1_loop_rrpv age2_loop_rrpv MAX_RRPV_val LLC_WAYS_def)
  have s3: "scan_loop (age2_loop (age1_loop thrash_state 0 0 0) 0 0 0) 0 0 0 = Some 1"
  proof (rule scan_loop_first)
    show "(0::nat) \<le> 1" by simp
    show "(1::nat) < LLC_WAYS" by (simp add: LLC_WAYS_def)
    show "repl_rrpv (age2_loop (age1_loop thrash_state 0 0 0) 0 0 0) 0 0 1 = MAX_RRPV"
      by (rule r1)
    show "\<forall>v. 0 \<le> v \<and> v < 1 \<longrightarrow>
        repl_rrpv (age2_loop (age1_loop thrash_state 0 0 0) 0 0 0) 0 0 v \<noteq> MAX_RRPV"
      using r0 by (simp add: MAX_RRPV_val)
  qed
  show ?thesis
    unfolding gv hv(3) fst_conv snd_conv using hv(1,2) h0 hn s1 s2 s3 r0 r1 by blast
qed

section \<open>Victim selection: validity of the returned way\<close>

text \<open>
  What holds in every state: \<open>GetVictimInSet\<close> returns a way index below \<open>LLC_WAYS\<close>;
  a way returned from inside the attempt loop is at \<open>MAX_RRPV\<close> in the state the
  function leaves; and when the loop is left without a return the way is 0, whatever
  the +2 aging pass has produced.
\<close>

lemma victim_way_or_loop_exit:
  "fst (GetVictimInSet st cpu s) < LLC_WAYS
   \<and> (fst (attempt_loop st cpu s 0) \<noteq> None \<longrightarrow>
        repl_rrpv (snd (GetVictimInSet st cpu s)) cpu s (fst (GetVictimInSet st cpu s)) = MAX_RRPV)
   \<and> (fst (attempt_loop st cpu s 0) = None \<longrightarrow> fst (GetVictimInSet st cpu s) = 0)"
proof (cases "scan_loop st cpu s 0")
  case (Some w)
  then show ?thesis
    using scan_loop_Some [OF Some]
    by (simp add: GetVictimInSet_unfold attempt_loop_unfold)
next
  case None
  note first = this
  show ?thesis
  proof (cases "scan_loop (age1_loop st cpu s 0) cpu s 0")
    case (Some w)
    then show ?thesis
      using scan_loop_Some [OF Some] first
      by (simp add: GetVictimInSet_unfold attempt_loop_unfold)
  next
    case None
    then show ?thesis
      using first by (simp add: GetVictimInSet_unfold attempt_loop_unfold LLC_WAYS_def)
  qed
qed

lemma victim_way_or_loop_exit_example:
  "fst (GetVictimInSet (InitReplacementState static_storage) 0 5) = 0
   \<and> fst (attempt_loop (InitReplacementState static_storage) 0 5 0) = Some 0
   \<and> repl_rrpv (snd (GetVictimInSet (InitReplacementState static_storage) 0 5)) 0 5 0 = MAX_RRPV
   \<and> fst (attempt_loop static_storage 0 5 0) = None
   \<and> fst (GetVictimInSet static_storage 0 5) = 0"
proof -
  have a: "scan_loop (InitReplacementState static_storage) 0 5 0 = Some 0"
    by (subst scan_loop.simps)
      (simp add: Init_rrpv LLC_WAYS_def LLC_SETS_def NUM_CORE_def)
  note b = static_storage_scans(1) [of 0 5] and c = static_storage_scans(2) [of 0 5]
  show ?thesis
    using victim_way_or_loop_exit [of "InitReplacementState static_storage" 0 5]
      victim_way_or_loop_exit [of static_storage 0 5]
    by (simp add: attempt_loop_unfold GetVictimInSet_unfold a b c)
qed

text \<open>
  Claim C2. The claim: the returned index is below \<open>LLC_WAYS\<close>, and the returned way's
  line is at \<open>MAX_RRPV\<close> at the moment of selection unless both aging passes failed to
  bring a line to \<open>MAX_RRPV\<close>. The index is always in range, but the second half fails
  in the reachable state \<open>thrash_state\<close>: there the +2 pass does not fail, it brings
  ways 1 to 15 to \<open>MAX_RRPV\<close>, and the function still returns way 0, whose line is at 4
  in the state it leaves. The attempt loop ends after the +2 pass without a scan of
  the state the pass leaves.
\<close>

theorem returned_line_below_max:
  "reachable thrash_state
   \<and> fst (GetVictimInSet thrash_state 0 0) = 0
   \<and> fst (GetVictimInSet thrash_state 0 0) < LLC_WAYS
   \<and> snd (GetVictimInSet thrash_state 0 0) = age2_loop (age1_loop thrash_state 0 0 0) 0 0 0
   \<and> repl_rrpv (snd (GetVictimInSet thrash_state 0 0)) 0 0
         (fst (GetVictimInSet thrash_state 0 0)) = 4
   \<and> repl_rrpv (snd (GetVictimInSet thrash_state 0 0)) 0 0
         (fst (GetVictimInSet thrash_state 0 0)) \<noteq> MAX_RRPV
   \<and> repl_rrpv (snd (GetVictimInSet thrash_state 0 0)) 0 0 1 = MAX_RRPV
   \<and> repl_rrpv (snd (GetVictimInSet thrash_state 0 0)) 0 0 15 = MAX_RRPV"
proof -
  note v = thrash_state_victim
  let ?st = "age2_loop (age1_loop thrash_state 0 0 0) 0 0 0"
  have r0: "repl_rrpv ?st 0 0 0 = 4"
    using v(4) by (simp add: LLC_WAYS_def)
  have r1: "repl_rrpv ?st 0 0 1 = MAX_RRPV"
    using v(4) [rule_format, of 1] by (simp add: LLC_WAYS_def)
  have r15: "repl_rrpv ?st 0 0 15 = MAX_RRPV"
    using v(4) [rule_format, of 15] by (simp add: LLC_WAYS_def)
  have ne: "repl_rrpv ?st 0 0 0 \<noteq> MAX_RRPV"
    using r0 by (simp add: MAX_RRPV_val)
  have lt: "(0::nat) < LLC_WAYS"
    by (simp add: LLC_WAYS_def)
  show ?thesis
    unfolding v(3) fst_conv snd_conv
    using thrash_state_reachable r0 r1 r15 ne lt by blast
qed

section \<open>Miss update: signature and insertion tier\<close>

text \<open>
  Claim C3. After a miss update (\<open>hit = 0\<close>) on a way with program counter \<open>PC\<close>, the
  line stores the signature \<open>new_signature PC\<close>, whose value is
  \<open>(PC >> 4) & (SHCT_SIZE - 1)\<close>, that is \<open>(PC div 16) mod 1024\<close>; the reuse cell of
  the line is 0; and the line's \<open>repl_rrpv\<close> follows the four tiers on
  \<open>pred = SHCT[new signature]\<close>: 0 from \<open>THRESHOLD + 2\<close> up, 1 from \<open>THRESHOLD\<close> up,
  \<open>MAX_RRPV - 1\<close> for a positive value below \<open>THRESHOLD\<close>, and \<open>MAX_RRPV\<close> for 0. The
  table read for \<open>pred\<close> is the table at the time of the lookup, which is the table the
  update leaves: the learning step for the outgoing line has already run, and nothing
  writes the table after it.
\<close>

theorem miss_install:
  assumes "st' = UpdateReplacementState st cpu s way PC 0"
    and "pred = SHCT st' (unat (new_signature PC))"
  shows "repl_sig st' cpu s way = new_signature PC
    \<and> unat (new_signature PC) = (unat PC div 2 ^ SIGN_SHIFT) mod SHCT_SIZE
    \<and> SIGN_SHIFT = 4 \<and> SHCT_SIZE = 1024
    \<and> repl_reused st' cpu s way = 0
    \<and> SHCT st' = shct_learn (SHCT st) (repl_sig st cpu s way) (repl_reused st cpu s way)
    \<and> (pred \<ge> THRESHOLD + 2 \<longrightarrow> repl_rrpv st' cpu s way = 0)
    \<and> (THRESHOLD \<le> pred \<and> pred < THRESHOLD + 2 \<longrightarrow> repl_rrpv st' cpu s way = 1)
    \<and> (0 < pred \<and> pred < THRESHOLD \<longrightarrow> repl_rrpv st' cpu s way = MAX_RRPV - 1)
    \<and> (pred = 0 \<longrightarrow> repl_rrpv st' cpu s way = MAX_RRPV)
    \<and> THRESHOLD = 4 \<and> MAX_RRPV = 7"
proof -
  have cells: "repl_sig st' cpu s way = new_signature PC" "repl_reused st' cpu s way = 0"
    "SHCT st' = shct_learn (SHCT st) (repl_sig st cpu s way) (repl_reused st cpu s way)"
    "repl_rrpv st' cpu s way = insertion_rrpv pred"
    unfolding assms by (simp_all add: Update_miss)
  have t1: "pred \<ge> THRESHOLD + 2 \<longrightarrow> insertion_rrpv pred = 0"
    by (simp add: insertion_rrpv_def)
  have t2: "THRESHOLD \<le> pred \<and> pred < THRESHOLD + 2 \<longrightarrow> insertion_rrpv pred = 1"
    by (auto simp: insertion_rrpv_def)
  have t3: "0 < pred \<and> pred < THRESHOLD \<longrightarrow> insertion_rrpv pred = MAX_RRPV - 1"
    by (auto simp: insertion_rrpv_def tiers_disjoint MAX_RRPV_val word_le_nat_alt word_less_nat_alt)
  have t4: "pred = 0 \<longrightarrow> insertion_rrpv pred = MAX_RRPV"
    by (simp add: insertion_rrpv_def tiers_disjoint)
  show ?thesis
    using t1 t2 t3 t4
    by (simp add: cells new_signature_unat tiers_disjoint MAX_RRPV_val SIGN_SHIFT_def
        SHCT_SIZE_def)
qed

theorem miss_install_witness:
  "repl_rrpv (UpdateReplacementState (static_storage\<lparr>SHCT := \<lambda>i. 7\<rparr>) 0 0 3 64 0) 0 0 3 = 0
   \<and> repl_rrpv (UpdateReplacementState (InitReplacementState static_storage) 0 0 3 64 0) 0 0 3 = 1
   \<and> repl_rrpv (UpdateReplacementState (static_storage\<lparr>SHCT := \<lambda>i. 2\<rparr>) 0 0 3 64 0) 0 0 3
       = MAX_RRPV - 1
   \<and> repl_rrpv (UpdateReplacementState static_storage 0 0 3 64 0) 0 0 3 = MAX_RRPV
   \<and> repl_sig (UpdateReplacementState static_storage 0 0 3 64 0) 0 0 3 = 4
   \<and> repl_reused (UpdateReplacementState static_storage 0 0 3 64 0) 0 0 3 = 0"
proof -
  have p1: "SHCT (UpdateReplacementState (static_storage\<lparr>SHCT := \<lambda>i. 7\<rparr>) 0 0 3 64 0)
      (unat (new_signature 64)) = 7"
    by (simp add: Update_miss new_signature_64 static_storage_cells shct_learn_other)
  have p2: "SHCT (UpdateReplacementState (InitReplacementState static_storage) 0 0 3 64 0)
      (unat (new_signature 64)) = 4"
    by (simp add: Update_miss new_signature_64 Init_sig Init_reused Init_SHCT
        static_storage_cells shct_learn_other SHCT_SIZE_def SHCT_INIT_def)
  have p3: "SHCT (UpdateReplacementState (static_storage\<lparr>SHCT := \<lambda>i. 2\<rparr>) 0 0 3 64 0)
      (unat (new_signature 64)) = 2"
    by (simp add: Update_miss new_signature_64 static_storage_cells shct_learn_other)
  have p4: "SHCT (UpdateReplacementState static_storage 0 0 3 64 0)
      (unat (new_signature 64)) = 0"
    by (simp add: Update_miss new_signature_64 static_storage_cells shct_learn_other)
  have "7 \<ge> THRESHOLD + 2 \<longrightarrow>
      repl_rrpv (UpdateReplacementState (static_storage\<lparr>SHCT := \<lambda>i. 7\<rparr>) 0 0 3 64 0) 0 0 3 = 0"
    using miss_install [OF refl p1 [symmetric]] by blast
  then have r1:
    "repl_rrpv (UpdateReplacementState (static_storage\<lparr>SHCT := \<lambda>i. 7\<rparr>) 0 0 3 64 0) 0 0 3 = 0"
    by (simp add: tiers_disjoint)
  have "THRESHOLD \<le> 4 \<and> 4 < THRESHOLD + 2 \<longrightarrow>
      repl_rrpv (UpdateReplacementState (InitReplacementState static_storage) 0 0 3 64 0) 0 0 3 = 1"
    using miss_install [OF refl p2 [symmetric]] by blast
  then have r2:
    "repl_rrpv (UpdateReplacementState (InitReplacementState static_storage) 0 0 3 64 0) 0 0 3 = 1"
    by (simp add: tiers_disjoint)
  have "0 < (2 :: 8 word) \<and> 2 < THRESHOLD \<longrightarrow>
      repl_rrpv (UpdateReplacementState (static_storage\<lparr>SHCT := \<lambda>i. 2\<rparr>) 0 0 3 64 0) 0 0 3
        = MAX_RRPV - 1"
    using miss_install [OF refl p3 [symmetric]] by blast
  then have r3:
    "repl_rrpv (UpdateReplacementState (static_storage\<lparr>SHCT := \<lambda>i. 2\<rparr>) 0 0 3 64 0) 0 0 3
        = MAX_RRPV - 1"
    by (simp add: tiers_disjoint)
  have "((0 :: 8 word) = 0 \<longrightarrow>
        repl_rrpv (UpdateReplacementState static_storage 0 0 3 64 0) 0 0 3 = MAX_RRPV)
      \<and> repl_sig (UpdateReplacementState static_storage 0 0 3 64 0) 0 0 3 = new_signature 64
      \<and> repl_reused (UpdateReplacementState static_storage 0 0 3 64 0) 0 0 3 = 0"
    using miss_install [OF refl p4 [symmetric]] by blast
  then have r4: "repl_rrpv (UpdateReplacementState static_storage 0 0 3 64 0) 0 0 3 = MAX_RRPV
      \<and> repl_sig (UpdateReplacementState static_storage 0 0 3 64 0) 0 0 3 = 4
      \<and> repl_reused (UpdateReplacementState static_storage 0 0 3 64 0) 0 0 3 = 0"
    by (simp add: new_signature_64)
  show ?thesis
    using r1 r2 r3 r4 by blast
qed

section \<open>Miss update: the learning step\<close>

text \<open>
  Claim C4. In a reachable state, a miss update on a way inside the arrays applies the
  learning step to the table and changes the table in no other way. With \<open>S\<close> the
  signature stored on the line before the update: \<open>S\<close> is below \<open>SHCT_SIZE\<close>; when the
  reuse cell is 1 the entry \<open>SHCT[S]\<close> becomes \<open>min (SHCT[S] + 1) 7\<close>; otherwise (the cell
  is then 0) it becomes \<open>SHCT[S] - 1\<close>, stopping at 0; every other entry keeps its value.
  Consequently \<open>n\<close> evictions of reused lines with signature \<open>S\<close> take the entry from
  \<open>v\<close> to \<open>min (v + n) 7\<close>, and \<open>n\<close> evictions of lines that were not reused take it to
  \<open>v - n\<close>, stopping at 0: the entry moves monotonically to the maximum, respectively
  to 0.
\<close>

theorem miss_learning:
  assumes "reachable st" and "cpu < NUM_CORE" and "s < LLC_SETS" and "way < LLC_WAYS"
    and "st' = UpdateReplacementState st cpu s way PC 0"
    and "sg = repl_sig st cpu s way" and "S = unat sg"
  shows "S < SHCT_SIZE
    \<and> SHCT st' = shct_learn (SHCT st) sg (repl_reused st cpu s way)
    \<and> (repl_reused st cpu s way = 1 \<longrightarrow>
         SHCT st' S = sat_inc (SHCT st S) SHCT_MAX
         \<and> unat (SHCT st' S) = min (unat (SHCT st S) + 1) 7)
    \<and> (repl_reused st cpu s way \<noteq> 1 \<longrightarrow>
         SHCT st' S = sat_dec (SHCT st S)
         \<and> unat (SHCT st' S) = unat (SHCT st S) - 1)
    \<and> (\<forall>i. i \<noteq> S \<longrightarrow> SHCT st' i = SHCT st i)
    \<and> (\<forall>n. unat (((\<lambda>t. shct_learn t sg 1) ^^ n) (SHCT st) S) = min (unat (SHCT st S) + n) 7)
    \<and> (\<forall>n. unat (((\<lambda>t. shct_learn t sg 0) ^^ n) (SHCT st) S) = unat (SHCT st S) - n)"
proof -
  have ok: "state_ok st"
    using assms(1) by (rule reachable_state_ok)
  have S: "unat sg < SHCT_SIZE"
    using ok assms(2-4,6) by (simp add: state_ok_def)
  have le: "SHCT st (unat sg) \<le> SHCT_MAX"
    using ok S by (simp add: state_ok_def)
  have flag: "repl_reused st cpu s way \<noteq> 1 \<longrightarrow> repl_reused st cpu s way = 0"
  proof -
    have "repl_reused st cpu s way \<le> 1"
      using ok assms(2-4) by (simp add: state_ok_def)
    then show ?thesis
      by (auto simp: word_le_nat_alt word_unat_eq_iff)
  qed
  have tab: "SHCT st' = shct_learn (SHCT st) sg (repl_reused st cpu s way)"
    unfolding assms(5,6) by (simp add: Update_miss)
  have inc: "unat (sat_inc (SHCT st (unat sg)) SHCT_MAX) = min (unat (SHCT st (unat sg)) + 1) 7"
    using sat_inc_unat [OF le] by (simp add: SHCT_MAX_def)
  have one: "(1 :: 8 word) \<noteq> 0" by simp
  show ?thesis
    unfolding assms(7) tab
    using S flag inc learn_iter_inc [of sg "SHCT st" 1, OF S le one] learn_iter_dec [OF S]
    by (auto simp: shct_learn_at [OF S] shct_learn_elsewhere [OF S] sat_dec_unat)
qed

theorem miss_learning_witness:
  "SHCT (UpdateReplacementState (InitReplacementState static_storage) 0 5 3 64 0) 0 = 3
   \<and> SHCT (UpdateReplacementState (InitReplacementState static_storage) 0 5 3 64 0) 9 = 4
   \<and> SHCT (UpdateReplacementState
        (UpdateReplacementState (InitReplacementState static_storage) 0 5 3 64 1) 0 5 3 64 0) 0 = 6
   \<and> unat (((\<lambda>t. shct_learn t 0 1) ^^ 5) (SHCT (InitReplacementState static_storage)) 0) = 7
   \<and> unat (((\<lambda>t. shct_learn t 0 0) ^^ 5) (SHCT (InitReplacementState static_storage)) 0) = 0"
proof -
  let ?f = "InitReplacementState static_storage"
  let ?h = "UpdateReplacementState ?f 0 5 3 64 1"
  note a = miss_learning [OF fresh_reachable in_range_0_5_3 refl refl refl, of 64]
  note b = miss_learning
    [OF reachable.r_update [OF fresh_reachable in_range_0_5_3, of 64 1] in_range_0_5_3
      refl refl refl, of 64]
  have "repl_reused ?f 0 5 3 \<noteq> 1 \<longrightarrow>
      SHCT (UpdateReplacementState ?f 0 5 3 64 0) (unat (repl_sig ?f 0 5 3))
        = sat_dec (SHCT ?f (unat (repl_sig ?f 0 5 3)))"
    using a by blast
  then have a1: "SHCT (UpdateReplacementState ?f 0 5 3 64 0) 0 = 3"
    by (simp add: fresh_cells sat_dec_def)
  have "\<forall>i. i \<noteq> unat (repl_sig ?f 0 5 3) \<longrightarrow>
      SHCT (UpdateReplacementState ?f 0 5 3 64 0) i = SHCT ?f i"
    using a by blast
  then have a2: "SHCT (UpdateReplacementState ?f 0 5 3 64 0) 9 = 4"
    by (simp add: fresh_cells)
  have "\<forall>n. unat (((\<lambda>t. shct_learn t (repl_sig ?f 0 5 3) 1) ^^ n) (SHCT ?f)
        (unat (repl_sig ?f 0 5 3))) = min (unat (SHCT ?f (unat (repl_sig ?f 0 5 3))) + n) 7"
    using a by blast
  then have a3: "unat (((\<lambda>t. shct_learn t 0 1) ^^ 5) (SHCT ?f) 0) = 7"
    unfolding fresh_cells by (simp add: fresh_cells)
  have "\<forall>n. unat (((\<lambda>t. shct_learn t (repl_sig ?f 0 5 3) 0) ^^ n) (SHCT ?f)
        (unat (repl_sig ?f 0 5 3))) = unat (SHCT ?f (unat (repl_sig ?f 0 5 3))) - n"
    using a by blast
  then have a4: "unat (((\<lambda>t. shct_learn t 0 0) ^^ 5) (SHCT ?f) 0) = 0"
    unfolding fresh_cells by (simp add: fresh_cells)
  have "repl_reused ?h 0 5 3 = 1 \<longrightarrow>
      SHCT (UpdateReplacementState ?h 0 5 3 64 0) (unat (repl_sig ?h 0 5 3))
        = sat_inc (SHCT ?h (unat (repl_sig ?h 0 5 3))) SHCT_MAX"
    using b by blast
  then have b1: "SHCT (UpdateReplacementState ?h 0 5 3 64 0) 0 = 6"
    by (simp add: fresh_hit_cells sat_inc_def SHCT_MAX_def)
  show ?thesis
    using a1 a2 a3 a4 b1 by blast
qed

section \<open>Hit update\<close>

text \<open>
  Claim C5. In a reachable state, a hit update (\<open>hit\<close> non-zero) on a way inside the
  arrays adds 1 to \<open>stat_hits\<close>, sets the line's reuse cell to 1 and its \<open>repl_rrpv\<close> to
  0, and increments the table entry of the signature \<open>S\<close> stored on the line, saturating
  at \<open>SHCT_MAX = 7\<close>. The stored signatures, the reuse cells and \<open>repl_rrpv\<close> cells of
  all other lines, all other table entries and \<open>stat_misses\<close> are unchanged.
\<close>

theorem hit_update:
  assumes "reachable st" and "cpu < NUM_CORE" and "s < LLC_SETS" and "way < LLC_WAYS"
    and "hit \<noteq> 0"
    and "st' = UpdateReplacementState st cpu s way PC hit"
    and "S = unat (repl_sig st cpu s way)"
  shows "stat_hits st' = stat_hits st + 1
    \<and> repl_reused st' cpu s way = 1
    \<and> repl_rrpv st' cpu s way = 0
    \<and> S < SHCT_SIZE
    \<and> SHCT st' S = sat_inc (SHCT st S) SHCT_MAX
    \<and> unat (SHCT st' S) = min (unat (SHCT st S) + 1) 7
    \<and> repl_sig st' = repl_sig st
    \<and> (\<forall>c s' w. c \<noteq> cpu \<or> s' \<noteq> s \<or> w \<noteq> way \<longrightarrow>
          repl_reused st' c s' w = repl_reused st c s' w
          \<and> repl_rrpv st' c s' w = repl_rrpv st c s' w)
    \<and> (\<forall>i. i \<noteq> S \<longrightarrow> SHCT st' i = SHCT st i)
    \<and> stat_misses st' = stat_misses st"
proof -
  have ok: "state_ok st"
    using assms(1) by (rule reachable_state_ok)
  have S: "S < SHCT_SIZE"
    using ok assms(2-4,7) by (simp add: state_ok_def)
  have m: "unat (repl_sig st cpu s way AND (of_nat SHCT_SIZE - 1)) = S"
    using S assms(7) by (simp add: masked_sig_id)
  have le: "SHCT st S \<le> SHCT_MAX"
    using ok S by (simp add: state_ok_def)
  have st': "st' = st\<lparr>stat_hits := stat_hits st + 1,
        repl_reused := upd3 (repl_reused st) cpu s way 1,
        repl_rrpv := upd3 (repl_rrpv st) cpu s way 0,
        SHCT := (SHCT st)(S := sat_inc (SHCT st S) SHCT_MAX)\<rparr>"
    unfolding assms(6) Update_hit [OF assms(5)] m ..
  have u: "unat (sat_inc (SHCT st S) SHCT_MAX) = min (unat (SHCT st S) + 1) 7"
    using sat_inc_unat [OF le] by (simp add: SHCT_MAX_def)
  show ?thesis
    unfolding st' using S u by auto
qed

theorem hit_update_witness:
  "stat_hits (UpdateReplacementState (InitReplacementState static_storage) 0 5 3 64 1) = 1
   \<and> repl_reused (UpdateReplacementState (InitReplacementState static_storage) 0 5 3 64 1) 0 5 3 = 1
   \<and> repl_rrpv (UpdateReplacementState (InitReplacementState static_storage) 0 5 3 64 1) 0 5 3 = 0
   \<and> SHCT (UpdateReplacementState (InitReplacementState static_storage) 0 5 3 64 1) 0 = 5
   \<and> repl_sig (UpdateReplacementState (InitReplacementState static_storage) 0 5 3 64 1) 0 5 3 = 0
   \<and> repl_rrpv (UpdateReplacementState (InitReplacementState static_storage) 0 5 3 64 1) 0 5 4 = 7
   \<and> SHCT (UpdateReplacementState (InitReplacementState static_storage) 0 5 3 64 1) 9 = 4
   \<and> stat_misses (UpdateReplacementState (InitReplacementState static_storage) 0 5 3 64 1) = 0"
proof -
  have nz: "(1 :: 8 word) \<noteq> 0" by simp
  note h = hit_update [OF fresh_reachable in_range_0_5_3 nz refl refl, of 64]
  have sg: "unat (repl_sig (InitReplacementState static_storage) 0 5 3) = 0"
    by (simp add: Init_sig in_range_0_5_3)
  have inc: "sat_inc (SHCT (InitReplacementState static_storage) 0) SHCT_MAX = 5"
    by (simp add: Init_SHCT sat_inc_def SHCT_SIZE_def SHCT_INIT_def SHCT_MAX_def)
  have far: "(0::nat) \<noteq> 0 \<or> (5::nat) \<noteq> 5 \<or> (4::nat) \<noteq> 3" "(9::nat) \<noteq> 0"
    by simp_all
  from h far show ?thesis
    unfolding sg inc
    by (simp add: Init_stats Init_sig Init_rrpv Init_SHCT in_range_0_5_3 LLC_WAYS_def
        NUM_CORE_def LLC_SETS_def SHCT_SIZE_def SHCT_INIT_def MAX_RRPV_val)
qed

section \<open>Counter bounds\<close>

text \<open>
  Claim C6. In every state reached from initialisation by any sequence of
  initialisations, victim selections and updates (with indices inside the arrays),
  every table entry lies in \<open>[0, SHCT_MAX]\<close> and every line's \<open>repl_rrpv\<close> lies in
  \<open>[0, MAX_RRPV]\<close>, both being \<open>[0, 7]\<close>. In particular \<open>sat_inc\<close> with limit \<open>SHCT_MAX\<close> and
  \<open>sat_dec\<close> keep a value that is at most \<open>SHCT_MAX\<close> at most \<open>SHCT_MAX\<close>, and both
  aging passes keep a cell that is at most \<open>MAX_RRPV\<close> at most \<open>MAX_RRPV\<close>.
\<close>

theorem counter_bounds:
  "(reachable st \<longrightarrow>
      (\<forall>i < SHCT_SIZE. 0 \<le> SHCT st i \<and> SHCT st i \<le> SHCT_MAX)
      \<and> (\<forall>c < NUM_CORE. \<forall>s < LLC_SETS. \<forall>w < LLC_WAYS.
            0 \<le> repl_rrpv st c s w \<and> repl_rrpv st c s w \<le> MAX_RRPV))
   \<and> (v \<le> SHCT_MAX \<longrightarrow> sat_inc v SHCT_MAX \<le> SHCT_MAX \<and> sat_dec v \<le> SHCT_MAX)
   \<and> (repl_rrpv st2 c s w \<le> MAX_RRPV \<longrightarrow>
        repl_rrpv (age1_loop st2 cpu s2 0) c s w \<le> MAX_RRPV
        \<and> repl_rrpv (age2_loop st2 cpu s2 0) c s w \<le> MAX_RRPV)
   \<and> unat SHCT_MAX = 7 \<and> unat MAX_RRPV = 7"
proof -
  have "state_ok st" if "reachable st"
    using that by (rule reachable_state_ok)
  then have inv: "reachable st \<longrightarrow>
      (\<forall>i < SHCT_SIZE. 0 \<le> SHCT st i \<and> SHCT st i \<le> SHCT_MAX)
      \<and> (\<forall>c < NUM_CORE. \<forall>s < LLC_SETS. \<forall>w < LLC_WAYS.
            0 \<le> repl_rrpv st c s w \<and> repl_rrpv st c s w \<le> MAX_RRPV)"
    by (simp add: state_ok_def)
  have sat: "v \<le> SHCT_MAX \<longrightarrow> sat_inc v SHCT_MAX \<le> SHCT_MAX \<and> sat_dec v \<le> SHCT_MAX"
    by (simp add: sat_inc_le sat_dec_le)
  have age: "repl_rrpv st2 c s w \<le> MAX_RRPV \<longrightarrow>
        repl_rrpv (age1_loop st2 cpu s2 0) c s w \<le> MAX_RRPV
        \<and> repl_rrpv (age2_loop st2 cpu s2 0) c s w \<le> MAX_RRPV"
    by (simp add: age1_loop_le age2_loop_le)
  have "unat SHCT_MAX = 7" "unat MAX_RRPV = 7"
    by (simp_all add: SHCT_MAX_def MAX_RRPV_val)
  with inv sat age show ?thesis
    by blast
qed

theorem counter_bounds_witness:
  "SHCT (snd (GetVictimInSet
       (UpdateReplacementState (InitReplacementState static_storage) 0 5 3 64 1) 0 5)) 0 \<le> SHCT_MAX
   \<and> repl_rrpv (snd (GetVictimInSet
       (UpdateReplacementState (InitReplacementState static_storage) 0 5 3 64 1) 0 5)) 0 5 3
       \<le> MAX_RRPV
   \<and> sat_inc 7 SHCT_MAX \<le> SHCT_MAX \<and> sat_dec 0 \<le> SHCT_MAX
   \<and> repl_rrpv (age1_loop static_storage 0 5 0) 0 5 3 \<le> MAX_RRPV
   \<and> repl_rrpv (age2_loop static_storage 0 5 0) 0 5 3 \<le> MAX_RRPV"
proof -
  let ?st = "snd (GetVictimInSet
       (UpdateReplacementState (InitReplacementState static_storage) 0 5 3 64 1) 0 5)"
  have r: "reachable ?st"
    by (intro reachable.r_victim reachable.r_update fresh_reachable in_range_0_5_3)
  have sz: "(0::nat) < SHCT_SIZE"
    by (simp add: SHCT_SIZE_def)
  have v: "(7 :: 8 word) \<le> SHCT_MAX" "(0 :: 8 word) \<le> SHCT_MAX"
    by (simp_all add: SHCT_MAX_def)
  have z: "repl_rrpv static_storage 0 5 3 \<le> MAX_RRPV"
    by (simp add: static_storage_cells)
  note t1 = counter_bounds [of ?st 7 static_storage 0 5 3 0 5]
  note t2 = counter_bounds [of ?st 0 static_storage 0 5 3 0 5]
  have "SHCT ?st 0 \<le> SHCT_MAX \<and> repl_rrpv ?st 0 5 3 \<le> MAX_RRPV"
    using t1 r sz in_range_0_5_3 by blast
  moreover have "sat_inc 7 SHCT_MAX \<le> SHCT_MAX"
    using t1 v by blast
  moreover have "sat_dec 0 \<le> SHCT_MAX"
    using t2 v by blast
  moreover have "repl_rrpv (age1_loop static_storage 0 5 0) 0 5 3 \<le> MAX_RRPV
      \<and> repl_rrpv (age2_loop static_storage 0 5 0) 0 5 3 \<le> MAX_RRPV"
    using t1 z by blast
  ultimately show ?thesis
    by blast
qed

section \<open>Victim selection: frame\<close>

text \<open>
  Claim C7. \<open>GetVictimInSet\<close> writes only the \<open>repl_rrpv\<close> cells of the targeted core
  and set: the stored signatures, the reuse cells, the whole table \<open>SHCT\<close>, both
  statistics counters and the \<open>repl_rrpv\<close> cells of every other core or set are the
  same after the call as before it.
\<close>

theorem victim_frame:
  "repl_sig (snd (GetVictimInSet st cpu s)) = repl_sig st
   \<and> repl_reused (snd (GetVictimInSet st cpu s)) = repl_reused st
   \<and> SHCT (snd (GetVictimInSet st cpu s)) = SHCT st
   \<and> stat_hits (snd (GetVictimInSet st cpu s)) = stat_hits st
   \<and> stat_misses (snd (GetVictimInSet st cpu s)) = stat_misses st
   \<and> (\<forall>c s' w. c \<noteq> cpu \<or> s' \<noteq> s \<longrightarrow>
         repl_rrpv (snd (GetVictimInSet st cpu s)) c s' w = repl_rrpv st c s' w)"
  using GetVictimInSet_other_sets [of _ cpu _ s st]
  by (simp add: GetVictimInSet_frame)

theorem victim_frame_witness:
  "repl_sig (snd (GetVictimInSet static_storage 0 5)) = repl_sig static_storage
   \<and> repl_reused (snd (GetVictimInSet static_storage 0 5)) = repl_reused static_storage
   \<and> SHCT (snd (GetVictimInSet static_storage 0 5)) = SHCT static_storage
   \<and> stat_hits (snd (GetVictimInSet static_storage 0 5)) = 0
   \<and> stat_misses (snd (GetVictimInSet static_storage 0 5)) = 0
   \<and> repl_rrpv (snd (GetVictimInSet static_storage 0 5)) 0 6 2 = 0
   \<and> repl_rrpv (snd (GetVictimInSet static_storage 0 5)) 0 5 2 = 3"
proof -
  note b = static_storage_scans(1) [of 0 5] and c = static_storage_scans(2) [of 0 5]
  have d: "repl_rrpv (snd (GetVictimInSet static_storage 0 5)) 0 5 2 = 3"
    by (simp add: GetVictimInSet_unfold b c age1_loop_rrpv age2_loop_rrpv
        static_storage_cells MAX_RRPV_val LLC_WAYS_def)
  have e: "(0::nat) \<noteq> 0 \<or> (6::nat) \<noteq> 5" by simp
  show ?thesis
    using victim_frame [of static_storage 0 5] d e
    by (simp add: static_storage_cells)
qed

section \<open>Victim selection: the fallback\<close>

text \<open>
  Claim C8. When neither scan that the function performs finds a line at \<open>MAX_RRPV\<close>
  (the scan of the initial state and the scan after the +1 aging pass), the attempt
  loop ends without a return, the +2 aging pass having run last, and the function
  returns way 0 together with the twice-aged state. The function has no error exit:
  for every state and every core and set it returns a way below \<open>LLC_WAYS\<close> and a
  state.
\<close>

theorem victim_fallback:
  "(scan_loop st cpu s 0 = None \<and> scan_loop (age1_loop st cpu s 0) cpu s 0 = None \<longrightarrow>
      attempt_loop st cpu s 0 = (None, age2_loop (age1_loop st cpu s 0) cpu s 0)
      \<and> GetVictimInSet st cpu s = (0, age2_loop (age1_loop st cpu s 0) cpu s 0))
   \<and> (\<exists>w st'. GetVictimInSet st cpu s = (w, st') \<and> w < LLC_WAYS)"
proof -
  have "fst (GetVictimInSet st cpu s) < LLC_WAYS"
  proof (cases "scan_loop st cpu s 0")
    case (Some w)
    then show ?thesis
      using scan_loop_Some [OF Some] by (simp add: GetVictimInSet_unfold)
  next
    case None
    note first = this
    show ?thesis
    proof (cases "scan_loop (age1_loop st cpu s 0) cpu s 0")
      case (Some w)
      then show ?thesis
        using scan_loop_Some [OF Some] first by (simp add: GetVictimInSet_unfold)
    next
      case None
      then show ?thesis
        using first by (simp add: GetVictimInSet_unfold LLC_WAYS_def)
    qed
  qed
  then have "\<exists>w st'. GetVictimInSet st cpu s = (w, st') \<and> w < LLC_WAYS"
    by (cases "GetVictimInSet st cpu s") simp
  then show ?thesis
    by (simp add: GetVictimInSet_unfold attempt_loop_unfold)
qed

theorem victim_fallback_witness:
  "scan_loop static_storage 0 5 0 = None
   \<and> scan_loop (age1_loop static_storage 0 5 0) 0 5 0 = None
   \<and> attempt_loop static_storage 0 5 0 = (None, age2_loop (age1_loop static_storage 0 5 0) 0 5 0)
   \<and> GetVictimInSet static_storage 0 5 = (0, age2_loop (age1_loop static_storage 0 5 0) 0 5 0)"
proof -
  note b = static_storage_scans(1) [of 0 5] and c = static_storage_scans(2) [of 0 5]
  show ?thesis
    using victim_fallback [of static_storage 0 5] b c by simp
qed

section \<open>The two learning steps agree\<close>

text \<open>
  Claim C9. For a line whose stored signature is below \<open>SHCT_SIZE\<close>, and for any value
  of its reuse cell, the miss path of the baseline variant and the miss path of the
  improved variant leave the same table: the baseline's learning step, indexed by the
  stored signature as it is and clamped by two conditionals, equals the improved
  variant's, indexed by the masked signature and clamped by \<open>sat_inc\<close> and \<open>sat_dec\<close>.
\<close>

theorem learning_step_agrees:
  assumes "unat (repl_sig st cpu s way) < SHCT_SIZE"
  shows "SHCT (base_UpdateReplacementState st cpu s way PC 0)
      = SHCT (UpdateReplacementState st cpu s way PC 0)
    \<and> base_shct_learn (SHCT st) (repl_sig st cpu s way) (repl_reused st cpu s way)
      = shct_learn (SHCT st) (repl_sig st cpu s way) (repl_reused st cpu s way)"
  by (simp add: base_Update_miss Update_miss base_shct_learn_eq [OF assms])

theorem learning_step_agrees_witness:
  "SHCT (base_UpdateReplacementState (InitReplacementState static_storage) 0 5 3 64 0) 0 = 3
   \<and> SHCT (UpdateReplacementState (InitReplacementState static_storage) 0 5 3 64 0) 0 = 3
   \<and> SHCT (base_UpdateReplacementState
        (UpdateReplacementState (InitReplacementState static_storage) 0 5 3 64 1) 0 5 3 64 0) 0 = 6
   \<and> SHCT (UpdateReplacementState
        (UpdateReplacementState (InitReplacementState static_storage) 0 5 3 64 1) 0 5 3 64 0) 0 = 6"
proof -
  let ?f = "InitReplacementState static_storage"
  let ?h = "UpdateReplacementState ?f 0 5 3 64 1"
  have sf: "unat (repl_sig ?f 0 5 3) < SHCT_SIZE" and sh: "unat (repl_sig ?h 0 5 3) < SHCT_SIZE"
    by (simp_all add: fresh_cells fresh_hit_cells SHCT_SIZE_def)
  have f3: "SHCT (base_UpdateReplacementState ?f 0 5 3 64 0) 0 = 3"
    by (simp add: base_Update_miss base_shct_learn_def fresh_cells SHCT_MAX_def)
  have h6: "SHCT (base_UpdateReplacementState ?h 0 5 3 64 0) 0 = 6"
    by (simp add: base_Update_miss base_shct_learn_def fresh_hit_cells SHCT_MAX_def)
  show ?thesis
    using learning_step_agrees [OF sf, of 64] learning_step_agrees [OF sh, of 64] f3 h6
    by simp
qed

section \<open>Stored signatures stay inside the table\<close>

text \<open>
  Claim C10. In every reachable state of the improved variant, every stored signature
  of a line inside the arrays is below \<open>SHCT_SIZE = 1024\<close>, so masking it changes
  nothing and the masked index passes the in-range check; the check passes for any
  16-bit value in fact, and every signature the update writes is below \<open>SHCT_SIZE\<close>. In
  every reachable state of the baseline variant the stored signatures are below
  \<open>SHCT_SIZE\<close> too, so its unmasked access \<open>SHCT[old_sig]\<close> is inside the table.
\<close>

theorem stored_signatures_in_bounds:
  "(reachable st \<longrightarrow>
      (\<forall>c < NUM_CORE. \<forall>s < LLC_SETS. \<forall>w < LLC_WAYS.
         unat (repl_sig st c s w) < SHCT_SIZE
         \<and> repl_sig st c s w AND (of_nat SHCT_SIZE - 1) = repl_sig st c s w
         \<and> unat (repl_sig st c s w AND (of_nat SHCT_SIZE - 1)) < SHCT_SIZE))
   \<and> (base_reachable st \<longrightarrow>
      (\<forall>c < NUM_CORE. \<forall>s < LLC_SETS. \<forall>w < LLC_WAYS. unat (repl_sig st c s w) < SHCT_SIZE))
   \<and> unat (new_signature PC) < SHCT_SIZE
   \<and> unat ((x :: 16 word) AND (of_nat SHCT_SIZE - 1)) < SHCT_SIZE
   \<and> SHCT_SIZE = 1024"
proof -
  have a: "unat (repl_sig st c s w) < SHCT_SIZE
      \<and> repl_sig st c s w AND (of_nat SHCT_SIZE - 1) = repl_sig st c s w
      \<and> unat (repl_sig st c s w AND (of_nat SHCT_SIZE - 1)) < SHCT_SIZE"
    if "reachable st" "c < NUM_CORE" "s < LLC_SETS" "w < LLC_WAYS" for c s w
  proof -
    have "unat (repl_sig st c s w) < SHCT_SIZE"
      using reachable_state_ok [OF that(1)] that(2-4) by (simp add: state_ok_def)
    then show ?thesis
      by (simp add: masked_sig_id)
  qed
  have b: "unat (repl_sig st c s w) < SHCT_SIZE"
    if "base_reachable st" "c < NUM_CORE" "s < LLC_SETS" "w < LLC_WAYS" for c s w
    using base_reachable_state_ok [OF that(1)] that(2-4) by (simp add: state_ok_def)
  have c: "unat (new_signature PC) < SHCT_SIZE"
    by (rule new_signature_bound)
  have d: "unat (x AND (of_nat SHCT_SIZE - 1)) < SHCT_SIZE"
    by (rule masked_sig_bound)
  have e: "SHCT_SIZE = 1024"
    by (simp add: SHCT_SIZE_def)
  from a b c d e show ?thesis
    by blast
qed

theorem stored_signatures_in_bounds_witness:
  "unat (repl_sig (UpdateReplacementState (InitReplacementState static_storage) 0 5 3 74565 0)
      0 5 3) < SHCT_SIZE
   \<and> repl_sig (UpdateReplacementState (InitReplacementState static_storage) 0 5 3 74565 0)
      0 5 3 = 564
   \<and> unat (repl_sig (base_UpdateReplacementState (InitReplacementState static_storage) 0 5 3 74565 0)
      0 5 3) < SHCT_SIZE
   \<and> repl_sig (base_UpdateReplacementState (InitReplacementState static_storage) 0 5 3 74565 0)
      0 5 3 = 564"
proof -
  let ?f = "InitReplacementState static_storage"
  have r: "reachable (UpdateReplacementState ?f 0 5 3 74565 0)"
    by (intro reachable.r_update fresh_reachable in_range_0_5_3)
  have b: "base_reachable (base_UpdateReplacementState ?f 0 5 3 74565 0)"
    by (intro base_reachable.b_update base_reachable.b_init in_range_0_5_3)
  have "unat (repl_sig (UpdateReplacementState ?f 0 5 3 74565 0) 0 5 3) < SHCT_SIZE"
    using stored_signatures_in_bounds [of "UpdateReplacementState ?f 0 5 3 74565 0"]
      r in_range_0_5_3 by blast
  moreover have
    "unat (repl_sig (base_UpdateReplacementState ?f 0 5 3 74565 0) 0 5 3) < SHCT_SIZE"
    using stored_signatures_in_bounds [of "base_UpdateReplacementState ?f 0 5 3 74565 0"]
      b in_range_0_5_3 by blast
  moreover have "repl_sig (UpdateReplacementState ?f 0 5 3 74565 0) 0 5 3 = 564"
    by (simp add: Update_miss new_signature_74565)
  moreover have "repl_sig (base_UpdateReplacementState ?f 0 5 3 74565 0) 0 5 3 = 564"
    by (simp add: base_Update_miss new_signature_74565)
  ultimately show ?thesis
    by blast
qed

section \<open>Further properties\<close>

text \<open>
  The baseline's \<open>while (true)\<close> search returns in every reachable state of the
  baseline variant: for a core and set inside the arrays it yields a way below
  \<open>LLC_WAYS\<close> whose line is at \<open>MAX_RRPV\<close> in the state it leaves.
\<close>

theorem baseline_victim_returns:
  assumes "base_reachable st" and "cpu < NUM_CORE" and "s < LLC_SETS"
  shows "\<exists>w st'. base_GetVictimInSet st cpu s = Some (w, st') \<and> w < LLC_WAYS
    \<and> repl_rrpv st' cpu s w = MAX_RRPV"
proof -
  have "repl_rrpv st cpu s 0 \<le> MAX_RRPV"
    using base_reachable_state_ok [OF assms(1)] assms(2,3)
    by (simp add: state_ok_def LLC_WAYS_def)
  then show ?thesis
    by (rule base_GetVictimInSet_returns)
qed

theorem baseline_victim_returns_witness:
  "base_GetVictimInSet (InitReplacementState static_storage) 0 5
     = Some (0, InitReplacementState static_storage)
   \<and> (\<exists>w st'. base_GetVictimInSet
         (base_UpdateReplacementState (InitReplacementState static_storage) 0 5 3 64 1) 0 5
           = Some (w, st') \<and> w < LLC_WAYS \<and> repl_rrpv st' 0 5 w = MAX_RRPV)"
proof -
  let ?f = "InitReplacementState static_storage"
  have "scan_loop ?f 0 5 0 = Some 0"
    by (subst scan_loop.simps) (simp add: Init_rrpv in_range_0_5_3 LLC_WAYS_def)
  then have a: "base_GetVictimInSet ?f 0 5 = Some (0, ?f)"
    by (subst base_GetVictimInSet.simps) simp
  have "base_reachable (base_UpdateReplacementState ?f 0 5 3 64 1)"
    by (intro base_reachable.b_update base_reachable.b_init in_range_0_5_3)
  from baseline_victim_returns [OF this in_range_0_5_3(1,2)] a show ?thesis
    by blast
qed

text \<open>
  Ties go to the lowest way index: a way returned from inside the attempt loop of
  \<open>GetVictimInSet\<close> is at \<open>MAX_RRPV\<close> in the state the function leaves, and no way
  with a smaller index is.
\<close>

theorem victim_lowest_index:
  assumes "fst (attempt_loop st cpu s 0) = Some w"
  shows "GetVictimInSet st cpu s = (w, snd (attempt_loop st cpu s 0))
    \<and> w < LLC_WAYS
    \<and> repl_rrpv (snd (GetVictimInSet st cpu s)) cpu s w = MAX_RRPV
    \<and> (\<forall>v < w. repl_rrpv (snd (GetVictimInSet st cpu s)) cpu s v \<noteq> MAX_RRPV)"
proof (cases "scan_loop st cpu s 0")
  case (Some w')
  then show ?thesis
    using scan_loop_Some [OF Some] assms
    by (simp add: GetVictimInSet_unfold attempt_loop_unfold)
next
  case None
  note first = this
  show ?thesis
  proof (cases "scan_loop (age1_loop st cpu s 0) cpu s 0")
    case (Some w')
    then show ?thesis
      using scan_loop_Some [OF Some] first assms
      by (simp add: GetVictimInSet_unfold attempt_loop_unfold)
  next
    case None
    then show ?thesis
      using first assms by (simp add: attempt_loop_unfold)
  qed
qed

theorem victim_lowest_index_witness:
  "GetVictimInSet (UpdateReplacementState (InitReplacementState static_storage) 0 5 0 64 0) 0 5
     = (1, UpdateReplacementState (InitReplacementState static_storage) 0 5 0 64 0)
   \<and> repl_rrpv (UpdateReplacementState (InitReplacementState static_storage) 0 5 0 64 0) 0 5 0 = 1
   \<and> repl_rrpv (UpdateReplacementState (InitReplacementState static_storage) 0 5 0 64 0) 0 5 1
       = MAX_RRPV"
proof -
  let ?st = "UpdateReplacementState (InitReplacementState static_storage) 0 5 0 64 0"
  have pred: "shct_learn (SHCT (InitReplacementState static_storage)) 0 0 4 = 4"
    by (simp add: shct_learn_elsewhere Init_SHCT SHCT_SIZE_def SHCT_INIT_def)
  have r0: "repl_rrpv ?st 0 5 0 = 1"
    by (simp add: Update_miss Init_sig Init_reused in_range_0_5_3 LLC_WAYS_def
        new_signature_64 pred insertion_rrpv_4)
  have r1: "repl_rrpv ?st 0 5 1 = MAX_RRPV"
    by (simp add: Update_miss Init_rrpv in_range_0_5_3 LLC_WAYS_def)
  have sc: "scan_loop ?st 0 5 0 = Some 1"
  proof (rule scan_loop_first)
    show "(0::nat) \<le> 1" by simp
    show "(1::nat) < LLC_WAYS" by (simp add: LLC_WAYS_def)
    show "repl_rrpv ?st 0 5 1 = MAX_RRPV" by (rule r1)
    show "\<forall>v. 0 \<le> v \<and> v < 1 \<longrightarrow> repl_rrpv ?st 0 5 v \<noteq> MAX_RRPV"
      using r0 by (simp add: MAX_RRPV_val)
  qed
  then have al: "attempt_loop ?st 0 5 0 = (Some 1, ?st)"
    by (simp add: attempt_loop_unfold)
  then have "fst (attempt_loop ?st 0 5 0) = Some 1"
    by simp
  from victim_lowest_index [OF this] r0 r1 show ?thesis
    unfolding al snd_conv by blast
qed

end
